theory Spec2Isabelle
  imports Main "HOL-Library.Sublist"
begin

section \<open>Strings\<close>

text \<open>
  JavaScript strings are modelled as \<open>string\<close> (a list of characters).
  \<open>str_includes h n\<close> is \<open>h.includes(n)\<close>: some position of \<open>h\<close> starts with \<open>n\<close>.
\<close>

fun str_includes :: "string \<Rightarrow> string \<Rightarrow> bool" where
  "str_includes [] n = (n = [])"
| "str_includes (c # cs) n = (prefix n (c # cs) \<or> str_includes cs n)"

text \<open>
  The exceptions of the model: an \<open>Error\<close> with its message, a TypeError (reading a
  property of \<open>undefined\<close>) and a RangeError (\<open>repeat\<close> with a negative count).
\<close>

datatype js_error = Error string | TypeError | RangeError

section \<open>XML documents\<close>

text \<open>
  A document is the tree of its root element. An element has a qualified tag name
  (an optional namespace prefix and a local name), its attributes in document order
  and its child nodes.
\<close>

datatype xnode =
    Element "string option" string "(string \<times> string) list" "xnode list"
  | Text string
  | Comment string

fun is_element_named :: "string \<Rightarrow> xnode \<Rightarrow> bool" where
  "is_element_named n (Element p l as ks) = (l = n)"
| "is_element_named n (Text t) = False"
| "is_element_named n (Comment t) = False"

fun child_nodes :: "xnode \<Rightarrow> xnode list" where
  "child_nodes (Element p l as ks) = ks"
| "child_nodes (Text t) = []"
| "child_nodes (Comment t) = []"

fun attribute_of :: "string \<Rightarrow> xnode \<Rightarrow> string option" where
  "attribute_of a (Element p l as ks) = map_of as a"
| "attribute_of a (Text t) = None"
| "attribute_of a (Comment t) = None"

definition child_elements :: "string \<Rightarrow> xnode \<Rightarrow> xnode list" where
  "child_elements n x = filter (is_element_named n) (child_nodes x)"

section \<open>Building the XACML request (AuthzForceClient.buildRequestXml)\<close>

text \<open>
  An attribute bag is a JavaScript object; the model keeps the list of its entries in
  the order \<open>Object.entries\<close> returns them. Each field of the request may be
  absent (\<open>None\<close>): the source tests \<open>if (request.subject)\<close> and so on, and an
  object or an array is truthy even when it is empty.
\<close>

type_synonym AttributeBag = "(string \<times> string) list"

record XacmlRequest =
  subject :: "AttributeBag option"
  resource :: "AttributeBag option"
  resources :: "AttributeBag list option"
  action :: "AttributeBag option"
  environment :: "AttributeBag option"

text \<open>The objects pushed on \<open>attributes\<close> and the \<open>requestObj\<close> built from them.\<close>

record AttributeValueObj =
  DataType :: string
  Content :: string

record AttributeObj =
  AttributeId :: string
  IncludeInResult :: string
  AttributeValue :: AttributeValueObj

record AttributesObj =
  Category :: string
  Attribute :: "AttributeObj list"

record RequestObj =
  Xmlns :: string
  ReturnPolicyIdList :: string
  CombinedDecision :: string
  Attributes :: "AttributesObj list"

definition string_type :: string where
  "string_type = ''http://www.w3.org/2001/XMLSchema#string''"

definition subject_attribute :: "string \<times> string \<Rightarrow> AttributeObj" where
  "subject_attribute kv =
     \<lparr>AttributeId = ''urn:oasis:names:tc:xacml:1.0:subject:'' @ fst kv,
      IncludeInResult = ''false'',
      AttributeValue = \<lparr>DataType = string_type, Content = snd kv\<rparr>\<rparr>"

definition resource_attribute :: "string \<times> string \<Rightarrow> AttributeObj" where
  "resource_attribute kv =
     \<lparr>AttributeId = ''urn:oasis:names:tc:xacml:1.0:resource:'' @ fst kv,
      IncludeInResult = ''false'',
      AttributeValue = \<lparr>DataType = string_type, Content = snd kv\<rparr>\<rparr>"

definition action_attribute :: "string \<times> string \<Rightarrow> AttributeObj" where
  "action_attribute kv =
     \<lparr>AttributeId = ''urn:oasis:names:tc:xacml:1.0:action:'' @ fst kv,
      IncludeInResult = ''false'',
      AttributeValue = \<lparr>DataType = string_type, Content = snd kv\<rparr>\<rparr>"

text \<open>The four blocks that push on \<open>attributes\<close>, in the order of the source.\<close>

definition subject_part :: "XacmlRequest \<Rightarrow> AttributeObj list" where
  "subject_part request =
     (case subject request of None \<Rightarrow> [] | Some bag \<Rightarrow> map subject_attribute bag)"

definition resource_part :: "XacmlRequest \<Rightarrow> AttributeObj list" where
  "resource_part request =
     (case resource request of None \<Rightarrow> [] | Some bag \<Rightarrow> map resource_attribute bag)"

definition resources_part :: "XacmlRequest \<Rightarrow> AttributeObj list" where
  "resources_part request =
     (case resources request of None \<Rightarrow> []
      | Some bags \<Rightarrow> concat (map (map resource_attribute) bags))"

definition action_part :: "XacmlRequest \<Rightarrow> AttributeObj list" where
  "action_part request =
     (case action request of None \<Rightarrow> [] | Some bag \<Rightarrow> map action_attribute bag)"

definition collect_attributes :: "XacmlRequest \<Rightarrow> AttributeObj list" where
  "collect_attributes request =
     subject_part request @ resource_part request @ resources_part request @ action_part request"

definition subject_category :: string where
  "subject_category = ''urn:oasis:names:tc:xacml:1.0:subject-category:access-subject''"

definition resource_category :: string where
  "resource_category = ''urn:oasis:names:tc:xacml:3.0:attribute-category:resource''"

definition action_category :: string where
  "action_category = ''urn:oasis:names:tc:xacml:3.0:attribute-category:action''"

definition id_includes :: "string \<Rightarrow> AttributeObj \<Rightarrow> bool" where
  "id_includes w attr = str_includes (AttributeId attr) w"

definition buildRequestObj :: "XacmlRequest \<Rightarrow> RequestObj" where
  "buildRequestObj request =
     (let attributes = collect_attributes request in
      \<lparr>Xmlns = ''urn:oasis:names:tc:xacml:3.0:core:schema:wd-17'',
       ReturnPolicyIdList = ''false'',
       CombinedDecision = ''false'',
       Attributes = filter (\<lambda>category. length (Attribute category) > 0)
         [\<lparr>Category = subject_category,
           Attribute = filter (id_includes ''subject'') attributes\<rparr>,
          \<lparr>Category = resource_category,
           Attribute = filter (id_includes ''resource'') attributes\<rparr>,
          \<lparr>Category = action_category,
           Attribute = filter (id_includes ''action'') attributes\<rparr>]\<rparr>)"

text \<open>
  \<open>js2xmlparser.parse('Request', requestObj)\<close> writes the object as a document: the
  entries under \<open>@\<close> become XML attributes, the entry under \<open>#\<close> the text of the
  element, and an array under a key one element of that name per item.
\<close>

definition attribute_element :: "AttributeObj \<Rightarrow> xnode" where
  "attribute_element a =
     Element None ''Attribute''
       [(''AttributeId'', AttributeId a), (''IncludeInResult'', IncludeInResult a)]
       [Element None ''AttributeValue'' [(''DataType'', DataType (AttributeValue a))]
          [Text (Content (AttributeValue a))]]"

definition attributes_element :: "AttributesObj \<Rightarrow> xnode" where
  "attributes_element c =
     Element None ''Attributes'' [(''Category'', Category c)]
       (map attribute_element (Attribute c))"

definition request_element :: "RequestObj \<Rightarrow> xnode" where
  "request_element r =
     Element None ''Request''
       [(''xmlns'', Xmlns r), (''ReturnPolicyIdList'', ReturnPolicyIdList r),
        (''CombinedDecision'', CombinedDecision r)]
       (map attributes_element (Attributes r))"

definition buildRequestXml :: "XacmlRequest \<Rightarrow> xnode" where
  "buildRequestXml request = request_element (buildRequestObj request)"

text \<open>Reading the produced document: its wrappers, their category and their attributes.\<close>

definition wrappers :: "xnode \<Rightarrow> xnode list" where
  "wrappers doc = child_elements ''Attributes'' doc"

definition wrappers_of :: "string \<Rightarrow> xnode \<Rightarrow> xnode list" where
  "wrappers_of cat doc = filter (\<lambda>w. attribute_of ''Category'' w = Some cat) (wrappers doc)"

definition attribute_ids :: "xnode \<Rightarrow> string list" where
  "attribute_ids w = map (\<lambda>a. the (attribute_of ''AttributeId'' a)) (child_elements ''Attribute'' w)"

text \<open>
  The entries a request holds for each category: the \<open>resources\<close> array belongs to
  the resource category together with the single \<open>resource\<close> bag.
\<close>

definition subject_entries :: "XacmlRequest \<Rightarrow> AttributeBag" where
  "subject_entries q = (case subject q of None \<Rightarrow> [] | Some bag \<Rightarrow> bag)"

definition resource_entries :: "XacmlRequest \<Rightarrow> AttributeBag" where
  "resource_entries q =
     (case resource q of None \<Rightarrow> [] | Some bag \<Rightarrow> bag) @
     (case resources q of None \<Rightarrow> [] | Some bags \<Rightarrow> concat bags)"

definition action_entries :: "XacmlRequest \<Rightarrow> AttributeBag" where
  "action_entries q = (case action q of None \<Rightarrow> [] | Some bag \<Rightarrow> bag)"

definition environment_entries :: "XacmlRequest \<Rightarrow> AttributeBag" where
  "environment_entries q = (case environment q of None \<Rightarrow> [] | Some bag \<Rightarrow> bag)"

text \<open>
  The category identifier and the attribute-id prefix XACML gives the environment
  category; the source never mentions either.
\<close>

definition environment_category :: string where
  "environment_category = ''urn:oasis:names:tc:xacml:3.0:attribute-category:environment''"

definition environment_prefix :: string where
  "environment_prefix = ''urn:oasis:names:tc:xacml:1.0:environment:''"

text \<open>
  \<open>one_wrapper_per_category q doc\<close>: the document has exactly one \<open>Attributes\<close>
  element for each of the four categories that has an entry in \<open>q\<close>, and none for a
  category without entries.
\<close>

definition wrapper_count_matches :: "string \<Rightarrow> AttributeBag \<Rightarrow> xnode \<Rightarrow> bool" where
  "wrapper_count_matches cat entries doc =
     (length (wrappers_of cat doc) = (if entries = [] then 0 else 1))"

definition one_wrapper_per_category :: "XacmlRequest \<Rightarrow> xnode \<Rightarrow> bool" where
  "one_wrapper_per_category q doc =
     (wrapper_count_matches subject_category (subject_entries q) doc \<and>
      wrapper_count_matches resource_category (resource_entries q) doc \<and>
      wrapper_count_matches action_category (action_entries q) doc \<and>
      wrapper_count_matches environment_category (environment_entries q) doc)"

text \<open>
  \<open>keys_keep_to_category q\<close>: no key of a bag contains the word by which the source
  recognises another category (\<open>subject\<close>, \<open>resource\<close>, \<open>action\<close>).
\<close>

definition keys_avoid :: "string \<Rightarrow> AttributeBag \<Rightarrow> bool" where
  "keys_avoid w bag = list_all (\<lambda>kv. \<not> str_includes (fst kv) w) bag"

definition keys_keep_to_category :: "XacmlRequest \<Rightarrow> bool" where
  "keys_keep_to_category q =
     (keys_avoid ''resource'' (subject_entries q) \<and> keys_avoid ''action'' (subject_entries q) \<and>
      keys_avoid ''subject'' (resource_entries q) \<and> keys_avoid ''action'' (resource_entries q) \<and>
      keys_avoid ''subject'' (action_entries q) \<and> keys_avoid ''resource'' (action_entries q))"

text \<open>
  \<open>each_in_own_wrapper q doc\<close>: every \<open>Attribute\<close> element of the document stands
  in exactly one wrapper, the one of the category of the bag it was built from. The
  elements built from the bags of a category are compared with the children of the
  wrappers of each category.
\<close>

definition attributes_under :: "string \<Rightarrow> xnode \<Rightarrow> xnode list" where
  "attributes_under cat doc = concat (map (child_elements ''Attribute'') (wrappers_of cat doc))"

definition each_in_own_wrapper :: "XacmlRequest \<Rightarrow> xnode \<Rightarrow> bool" where
  "each_in_own_wrapper q doc =
     (attributes_under subject_category doc =
        map (attribute_element \<circ> subject_attribute) (subject_entries q) \<and>
      attributes_under resource_category doc =
        map (attribute_element \<circ> resource_attribute) (resource_entries q) \<and>
      attributes_under action_category doc =
        map (attribute_element \<circ> action_attribute) (action_entries q))"

text \<open>The requests used as examples below.\<close>

definition no_bags :: XacmlRequest where
  "no_bags = \<lparr>subject = None, resource = None, resources = None, action = None,
     environment = None\<rparr>"

definition person_query :: XacmlRequest where
  "person_query = no_bags
     \<lparr>resources := Some [[(''resource-id'', ''urn:klf:ds:person'')],
                         [(''resource-id'', ''urn:klf:ds:field:person.name'')]],
      action := Some [(''action-id'', ''read'')]\<rparr>"

definition owner_query :: XacmlRequest where
  "owner_query = no_bags \<lparr>subject := Some [(''resource-owner'', ''alice'')]\<rparr>"

definition time_query :: XacmlRequest where
  "time_query = no_bags \<lparr>environment := Some [(''currentTime'', ''2024-01-01T00:00:00Z'')]\<rparr>"

definition role_query :: XacmlRequest where
  "role_query = no_bags
     \<lparr>subject := Some [(''subject-id'', ''admin1''), (''role'', ''admin'')],
      resource := Some [(''resource-id'', ''doc123''), (''type'', ''document'')],
      action := Some [(''action-id'', ''read'')],
      environment := Some [(''currentTime'', ''2024-01-01T00:00:00Z'')]\<rparr>"

section \<open>Reading a decision response (AuthzForceClient.parseDecisionResponse)\<close>

text \<open>
  The response text is parsed by the DOM library (\<open>DOMParser.parseFromString\<close>); the
  model starts from the parsed document. \<open>tag_name\<close> is the DOM's \<open>tagName\<close>
  (the qualified name), the local name is what XPath's \<open>local-name()\<close> returns.
\<close>

fun tag_name :: "xnode \<Rightarrow> string" where
  "tag_name (Element None l as ks) = l"
| "tag_name (Element (Some p) l as ks) = p @ '':'' @ l"
| "tag_name (Text t) = []"
| "tag_name (Comment t) = []"

text \<open>All elements of a document, in document order.\<close>

fun descendant_elements :: "xnode \<Rightarrow> xnode list" where
  "descendant_elements (Element p l as ks) =
     Element p l as ks # concat (map descendant_elements ks)"
| "descendant_elements (Text t) = []"
| "descendant_elements (Comment t) = []"

text \<open>\<open>textContent\<close> of an element: the text of its descendants, comments left out.\<close>

fun textContent :: "xnode \<Rightarrow> string" where
  "textContent (Element p l as ks) = concat (map textContent ks)"
| "textContent (Text t) = t"
| "textContent (Comment t) = []"

text \<open>\<open>doc.getElementsByTagName(name)\<close> compares the qualified tag name.\<close>

definition getElementsByTagName :: "string \<Rightarrow> xnode \<Rightarrow> xnode list" where
  "getElementsByTagName name doc = filter (\<lambda>e. tag_name e = name) (descendant_elements doc)"

definition parseXmlToDom :: "xnode \<Rightarrow> js_error + xnode" where
  "parseXmlToDom doc =
     (case getElementsByTagName ''parsererror'' doc of
        [] \<Rightarrow> Inr doc
      | parseError # _ \<Rightarrow> Inl (Error (''XML parsing error: '' @ textContent parseError)))"

text \<open>
  The three XPath queries of the source. A node set is returned in document order:
  \<^item> \<open>//*[local-name()="n"]\<close>: the elements with local name \<open>n\<close>;
  \<^item> \<open>//*[local-name()="n"]/text()\<close>: the text nodes whose parent is such an element;
  \<^item> \<open>//*[local-name()="n"]/@a\<close>: the attributes named \<open>a\<close> of such elements
    (an attribute node is the pair of its name and value).
  \<open>select1\<close> takes the first node of the set, or \<open>undefined\<close> (\<open>None\<close>).
\<close>

definition select_elements :: "string \<Rightarrow> xnode \<Rightarrow> xnode list" where
  "select_elements n doc = filter (is_element_named n) (descendant_elements doc)"

fun text_data :: "xnode \<Rightarrow> string list" where
  "text_data (Text t) = [t]"
| "text_data (Element p l as ks) = []"
| "text_data (Comment t) = []"

fun select_text :: "string \<Rightarrow> xnode \<Rightarrow> string list" where
  "select_text n (Element p l as ks) =
     concat (map (\<lambda>k. (if l = n then text_data k else []) @ select_text n k) ks)"
| "select_text n (Text t) = []"
| "select_text n (Comment t) = []"

fun attribute_nodes :: "string \<Rightarrow> xnode \<Rightarrow> (string \<times> string) list" where
  "attribute_nodes a (Element p l as ks) = filter (\<lambda>kv. fst kv = a) as"
| "attribute_nodes a (Text t) = []"
| "attribute_nodes a (Comment t) = []"

definition select_attribute :: "string \<Rightarrow> string \<Rightarrow> xnode \<Rightarrow> (string \<times> string) list" where
  "select_attribute n a doc = concat (map (attribute_nodes a) (select_elements n doc))"

fun select1 :: "'a list \<Rightarrow> 'a option" where
  "select1 [] = None"
| "select1 (x # xs) = Some x"

text \<open>
  \<open>select1\<close> returns the DOM node itself, and \<open>toString()\<close> of a node of the DOM
  library (\<open>@xmldom/xmldom\<close>) is the node written as XML, as \<open>XMLSerializer\<close>
  writes it. A text node is written as its data with \<open><\<close>, \<open>>\<close> and \<open>&\<close>
  escaped; an attribute node is written as a space, its name, \<open>="\<close>, its escaped
  value and \<open>"\<close>. (The value alone is the node's \<open>value\<close> property.)
\<close>

definition xml_escape_text :: "char \<Rightarrow> string" where
  "xml_escape_text c =
     (if c = CHR ''<'' then ''&lt;'' else if c = CHR ''>'' then ''&gt;''
      else if c = CHR ''&'' then ''&amp;'' else [c])"

definition xml_escape_attribute :: "char \<Rightarrow> string" where
  "xml_escape_attribute c =
     (if c = CHR ''<'' then ''&lt;'' else if c = CHR ''>'' then ''&gt;''
      else if c = CHR ''&'' then ''&amp;'' else if c = CHR 0x22 then ''&quot;''
      else if c = CHR 0x09 then ''&#9;'' else if c = CHR 0x0A then ''&#10;''
      else if c = CHR 0x0D then ''&#13;'' else [c])"

definition text_toString :: "string \<Rightarrow> string" where
  "text_toString t = concat (map xml_escape_text t)"

definition attribute_toString :: "string \<times> string \<Rightarrow> string" where
  "attribute_toString kv =
     '' '' @ fst kv @ [CHR ''='', CHR 0x22] @ concat (map xml_escape_attribute (snd kv)) @ [CHR 0x22]"

record XacmlDecisionResponse =
  decision :: string
  status :: "string option"
  obligations :: "xnode list"
  advice :: "xnode list"

text \<open>
  \<open>!decision\<close> holds for \<open>undefined\<close> and for the empty string, and
  \<open>statusCode || null\<close> is \<open>null\<close> for both.
\<close>

fun nonempty_string :: "string option \<Rightarrow> string option" where
  "nonempty_string None = None"
| "nonempty_string (Some s) = (if s = [] then None else Some s)"

definition parseDecisionResponse :: "xnode \<Rightarrow> js_error + XacmlDecisionResponse" where
  "parseDecisionResponse responseXml =
     (case parseXmlToDom responseXml of
        Inl e \<Rightarrow> Inl e
      | Inr doc \<Rightarrow>
          (let decision = map_option text_toString (select1 (select_text ''Decision'' doc));
               statusCode = map_option attribute_toString
                 (select1 (select_attribute ''StatusCode'' ''Value'' doc))
           in case nonempty_string decision of
                None \<Rightarrow> Inl (Error ''No Decision element found in response'')
              | Some d \<Rightarrow>
                  Inr \<lparr>decision = d,
                       status = nonempty_string statusCode,
                       obligations = select_elements ''Obligation'' doc,
                       advice = select_elements ''Advice'' doc\<rparr>))"

text \<open>The two variants of a document: every element tag with the prefix \<open>p\<close>, or with none.\<close>

fun with_prefix :: "string option \<Rightarrow> xnode \<Rightarrow> xnode" where
  "with_prefix p (Element q l as ks) = Element p l as (map (with_prefix p) ks)"
| "with_prefix p (Text t) = Text t"
| "with_prefix p (Comment t) = Comment t"

text \<open>The response of the specification's example, and one without a decision.\<close>

definition status_ok :: string where
  "status_ok = ''urn:oasis:names:tc:xacml:1.0:status:ok''"

definition permit_response :: xnode where
  "permit_response =
     Element None ''Response'' [(''xmlns'', ''urn:oasis:names:tc:xacml:3.0:core:schema:wd-17'')]
       [Element None ''Result'' []
          [Element None ''Decision'' [] [Text ''Permit''],
           Element None ''Status'' [] [Element None ''StatusCode'' [(''Value'', status_ok)] []]]]"

definition undecided_response :: xnode where
  "undecided_response =
     Element None ''Response'' []
       [Element None ''Result'' []
          [Element None ''Status'' [] [Element None ''StatusCode'' [(''Value'', status_ok)] []]]]"

section \<open>The earlier parseDecisionResponse, on the object tree of xml2js\<close>

text \<open>
  The other version of the client parses the response with \<open>xml2js\<close> and walks the
  resulting JavaScript value. The values that occur: \<open>undefined\<close>, \<open>null\<close>, strings,
  arrays, and objects as the list of their entries.
\<close>

datatype jsval =
    JUndefined
  | JNull
  | JString string
  | JArray "jsval list"
  | JObject "(string \<times> jsval) list"

fun js_truthy :: "jsval \<Rightarrow> bool" where
  "js_truthy JUndefined = False"
| "js_truthy JNull = False"
| "js_truthy (JString s) = (s \<noteq> [])"
| "js_truthy (JArray xs) = True"
| "js_truthy (JObject kvs) = True"

definition js_or :: "jsval \<Rightarrow> jsval \<Rightarrow> jsval" where
  "js_or a b = (if js_truthy a then a else b)"

text \<open>
  \<open>js_prop v k\<close> is \<open>v[k]\<close> for a key \<open>k\<close> that is not an index or a built-in
  property: reading a property of \<open>undefined\<close> or \<open>null\<close> throws a TypeError, a
  string or an array has no such property. \<open>js_first v\<close> is \<open>v[0]\<close>.
\<close>

fun js_prop :: "jsval \<Rightarrow> string \<Rightarrow> js_error + jsval" where
  "js_prop JUndefined k = Inl TypeError"
| "js_prop JNull k = Inl TypeError"
| "js_prop (JString s) k = Inr JUndefined"
| "js_prop (JArray xs) k = Inr JUndefined"
| "js_prop (JObject kvs) k = Inr (case map_of kvs k of None \<Rightarrow> JUndefined | Some v \<Rightarrow> v)"

fun js_first :: "jsval \<Rightarrow> js_error + jsval" where
  "js_first JUndefined = Inl TypeError"
| "js_first JNull = Inl TypeError"
| "js_first (JString s) = Inr (case s of [] \<Rightarrow> JUndefined | c # _ \<Rightarrow> JString [c])"
| "js_first (JArray xs) = Inr (case xs of [] \<Rightarrow> JUndefined | x # _ \<Rightarrow> x)"
| "js_first (JObject kvs) = Inr (case map_of kvs ''0'' of None \<Rightarrow> JUndefined | Some v \<Rightarrow> v)"

definition then_do :: "js_error + 'a \<Rightarrow> ('a \<Rightarrow> js_error + 'b) \<Rightarrow> js_error + 'b" where
  "then_do r f = (case r of Inl e \<Rightarrow> Inl e | Inr x \<Rightarrow> f x)"

text \<open>
  The value \<open>xml2js\<close> builds for an element with its default options: the attributes
  under \<open>$\<close>, text that is not blank under \<open>_\<close>, and for each tag name among the child
  elements the array of their values; an element with no attribute and no child
  element is just its text. White space is what the regular expression \<open>\s\<close> matches
  among the characters of the model.
\<close>

definition is_space :: "char \<Rightarrow> bool" where
  "is_space c = (c \<in> set [CHR 0x09, CHR 0x0A, CHR 0x0B, CHR 0x0C, CHR 0x0D, CHR 0x20, CHR 0xA0])"

definition is_blank :: "string \<Rightarrow> bool" where
  "is_blank s = list_all is_space s"

fun is_element :: "xnode \<Rightarrow> bool" where
  "is_element (Element p l as ks) = True"
| "is_element (Text t) = False"
| "is_element (Comment t) = False"

fun own_attributes :: "xnode \<Rightarrow> (string \<times> string) list" where
  "own_attributes (Element p l as ks) = as"
| "own_attributes (Text t) = []"
| "own_attributes (Comment t) = []"

definition own_text :: "xnode \<Rightarrow> string" where
  "own_text x = concat (map (\<lambda>k. concat (text_data k)) (child_nodes x))"

definition group_by_tag :: "(xnode \<times> jsval) list \<Rightarrow> (string \<times> jsval) list" where
  "group_by_tag kvs =
     map (\<lambda>t. (t, JArray (map snd (filter (\<lambda>kv. tag_name (fst kv) = t) kvs))))
       (remdups (map (tag_name \<circ> fst) kvs))"

definition xml2js_object :: "xnode \<Rightarrow> (xnode \<times> jsval) list \<Rightarrow> jsval" where
  "xml2js_object x children =
     (let attrs = own_attributes x; text = own_text x;
          elements = filter (\<lambda>kv. is_element (fst kv)) children
      in if attrs = [] \<and> elements = [] then JString text
         else JObject
           ((if attrs = [] then [] else [(''$'', JObject (map (\<lambda>kv. (fst kv, JString (snd kv))) attrs))]) @
            (if is_blank text then [] else [(''_'', JString text)]) @
            group_by_tag elements))"

fun xml2js_value :: "xnode \<Rightarrow> jsval" where
  "xml2js_value (Element p l as ks) =
     xml2js_object (Element p l as ks) (map (\<lambda>k. (k, xml2js_value k)) ks)"
| "xml2js_value (Text t) = JString t"
| "xml2js_value (Comment t) = JUndefined"

definition parseStringPromise :: "xnode \<Rightarrow> jsval" where
  "parseStringPromise doc = JObject [(tag_name doc, xml2js_value doc)]"

record Xml2jsDecisionResponse =
  decision_value :: jsval
  status_value :: jsval
  obligations_value :: jsval
  advice_value :: jsval

definition parseDecisionResponse_xml2js :: "xnode \<Rightarrow> js_error + Xml2jsDecisionResponse" where
  "parseDecisionResponse_xml2js responseXml =
     (let result = parseStringPromise responseXml in
      then_do (js_prop result ''ns3:Response'') (\<lambda>r1.
      then_do (js_prop result ''Response'') (\<lambda>r2.
      let response = js_or r1 r2 in
      if \<not> js_truthy response then Inl (Error ''No Response element found in parsed result'')
      else
      then_do (js_prop response ''ns3:Result'') (\<lambda>e1.
      then_do (if js_truthy e1 then Inr e1 else js_prop response ''Result'') (\<lambda>resultElement.
      if \<not> js_truthy resultElement then Inl (Error ''No Result element found in response'')
      else
      then_do (js_first resultElement) (\<lambda>first.
      if \<not> js_truthy first then Inl (Error ''No Result element found in response'')
      else
      then_do (js_prop first ''ns3:Decision'') (\<lambda>d1.
      then_do (if js_truthy d1 then Inr d1 else js_prop first ''Decision'') (\<lambda>d.
      then_do (js_first d) (\<lambda>decision.
      then_do (js_prop first ''ns3:Status'') (\<lambda>s1.
      then_do (if js_truthy s1 then Inr s1 else js_prop first ''Status'') (\<lambda>status.
      then_do (if js_truthy status
               then then_do (js_first status) (\<lambda>s0.
                    then_do (js_prop s0 ''StatusCode'') (\<lambda>sc.
                    then_do (js_first sc) (\<lambda>sc0.
                    then_do (js_prop sc0 ''$'') (\<lambda>at. js_prop at ''Value''))))
               else Inr JNull) (\<lambda>status_result.
      then_do (js_prop first ''Obligations'') (\<lambda>ob.
      then_do (js_prop first ''AssociatedAdvice'') (\<lambda>ad.
      Inr \<lparr>decision_value = decision,
           status_value = status_result,
           obligations_value = js_or ob (JArray []),
           advice_value = js_or ad (JArray [])\<rparr>))))))))))))))"

section \<open>Indenting XML text (formatXML in scripts/build-xacml.js)\<close>

text \<open>
  The string operations the function uses. \<open>first_index n h\<close> is the first position of
  \<open>h\<close> at which \<open>n\<close> starts; \<open>indexOf s n i\<close> is \<open>s.indexOf(n, i)\<close>, with \<open>None\<close>
  for \<open>-1\<close>; \<open>substring s a b\<close> is \<open>s.substring(a, b)\<close>.
\<close>

fun first_index :: "string \<Rightarrow> string \<Rightarrow> nat option" where
  "first_index n [] = (if n = [] then Some 0 else None)"
| "first_index n (c # cs) =
     (if prefix n (c # cs) then Some 0 else map_option Suc (first_index n cs))"

definition indexOf :: "string \<Rightarrow> string \<Rightarrow> nat \<Rightarrow> nat option" where
  "indexOf s n i =
     (let j = min i (length s) in map_option (\<lambda>k. j + k) (first_index n (drop j s)))"

definition substring :: "string \<Rightarrow> nat \<Rightarrow> nat \<Rightarrow> string" where
  "substring s a b = take (max a b - min a b) (drop (min a b) s)"

definition js_trim :: "string \<Rightarrow> string" where
  "js_trim s = rev (dropWhile is_space (rev (dropWhile is_space s)))"

definition repeat_str :: "string \<Rightarrow> int \<Rightarrow> js_error + string" where
  "repeat_str s n = (if n < 0 then Inl RangeError else Inr (concat (replicate (nat n) s)))"

fun join_lines :: "string list \<Rightarrow> string" where
  "join_lines [] = []"
| "join_lines [x] = x"
| "join_lines (x # y # ys) = x @ [CHR 0x0A] @ join_lines (y # ys)"

text \<open>
  The name the regular expression \<open>/^<([\w:-]+)/\<close> extracts from a tag: the longest
  run of letters, digits, \<open>_\<close>, \<open>:\<close> and \<open>-\<close> after the \<open><\<close>, which must not be empty.
\<close>

definition is_name_char :: "char \<Rightarrow> bool" where
  "is_name_char c =
     (c \<in> set ''abcdefghijklmnopqrstuvwxyzABCDEFGHIJKLMNOPQRSTUVWXYZ0123456789_:-'')"

definition tag_name_match :: "string \<Rightarrow> string option" where
  "tag_name_match fullTag =
     (case fullTag of
        [] \<Rightarrow> None
      | c # cs \<Rightarrow>
          if c = CHR ''<'' \<and> takeWhile is_name_char cs \<noteq> [] then Some (takeWhile is_name_char cs)
          else None)"

text \<open>
  One pass of the \<open>while\<close> loop from the scan position \<open>i\<close>, the indent level and
  the lines pushed so far: the loop ends (\<open>break\<close>), an exception is thrown, or the
  loop goes on from a new state.
\<close>

datatype fx_step = Finish | Throw js_error | Continue nat int "string list"

definition push_indented :: "int \<Rightarrow> string \<Rightarrow> nat \<Rightarrow> int \<Rightarrow> string list \<Rightarrow> fx_step" where
  "push_indented count line i' level' result =
     (case repeat_str ''  '' count of
        Inl e \<Rightarrow> Throw e
      | Inr pad \<Rightarrow> Continue i' level' (result @ [pad @ line]))"

definition opening_tag :: "string \<Rightarrow> nat \<Rightarrow> string \<Rightarrow> int \<Rightarrow> string list \<Rightarrow> fx_step" where
  "opening_tag xmlString tagEnd fullTag indentLevel result =
     (case tag_name_match fullTag of
        None \<Rightarrow> Throw (Error ''Failed to extract tag name from XML.'')
      | Some tagName \<Rightarrow>
          (let closingTag = ''</'' @ tagName @ ''>'';
               regular = push_indented indentLevel fullTag (tagEnd + 1) (indentLevel + 1) result
           in case indexOf xmlString closingTag (tagEnd + 1) of
                None \<Rightarrow> regular
              | Some closingTagStart \<Rightarrow>
                  (let innerContent = substring xmlString (tagEnd + 1) closingTagStart;
                       hasOnlyText = (\<not> str_includes innerContent ''<'')
                   in if hasOnlyText \<and> js_trim innerContent \<noteq> []
                      then push_indented indentLevel (fullTag @ innerContent @ closingTag)
                             (closingTagStart + length closingTag) indentLevel result
                      else regular)))"

definition formatXML_step :: "string \<Rightarrow> nat \<Rightarrow> int \<Rightarrow> string list \<Rightarrow> fx_step" where
  "formatXML_step xmlString i indentLevel result =
     (case indexOf xmlString ''<'' i of
        None \<Rightarrow> Finish
      | Some tagStart \<Rightarrow>
          (case indexOf xmlString ''>'' tagStart of
             None \<Rightarrow> Finish
           | Some tagEnd \<Rightarrow>
               (let fullTag = substring xmlString tagStart (tagEnd + 1) in
                if prefix ''<?'' fullTag \<or> prefix ''<!--'' fullTag
                then Continue (tagEnd + 1) indentLevel (result @ [fullTag])
                else if prefix ''</'' fullTag
                then push_indented (indentLevel - 1) fullTag (tagEnd + 1) (indentLevel - 1) result
                else if suffix ''/>'' fullTag
                then push_indented indentLevel fullTag (tagEnd + 1) indentLevel result
                else opening_tag xmlString tagEnd fullTag indentLevel result)))"

function formatXML_loop :: "string \<Rightarrow> nat \<Rightarrow> int \<Rightarrow> string list \<Rightarrow> js_error + string list" where
  "formatXML_loop xmlString i indentLevel result =
     (if i < length xmlString
      then (case formatXML_step xmlString i indentLevel result of
              Finish \<Rightarrow> Inr result
            | Throw e \<Rightarrow> Inl e
            | Continue i' indentLevel' result' \<Rightarrow> formatXML_loop xmlString i' indentLevel' result')
      else Inr result)"
  by pat_completeness auto
termination formatXML_loop
proof (relation "measure (\<lambda>(s, i, l, r). length s - i)")
  show "wf (measure (\<lambda>(s, i, l, r). length s - i))"
    by simp
next
  fix xmlString :: string and i i' :: nat and indentLevel indentLevel' :: int
    and result result' :: "string list"
  assume i: "i < length xmlString"
    and step: "formatXML_step xmlString i indentLevel result = Continue i' indentLevel' result'"
  have lower: "j \<le> k" if "indexOf xmlString n j = Some k" "j < length xmlString" for n j k
    using that by (auto simp: indexOf_def Let_def min_def)
  from step obtain tagStart tagEnd where
    ts: "indexOf xmlString ''<'' i = Some tagStart" and
    te: "indexOf xmlString ''>'' tagStart = Some tagEnd"
    by (auto simp: formatXML_step_def split: option.splits)
  have "i \<le> tagStart" using ts i by (rule lower)
  moreover have "tagStart \<le> tagEnd"
    using te by (auto simp: indexOf_def Let_def min_def split: if_splits)
  moreover have "tagEnd + 1 \<le> i'"
    using step ts te
    by (auto simp: formatXML_step_def opening_tag_def push_indented_def Let_def indexOf_def
        min_def split: option.splits if_splits sum.splits)
  ultimately have "i < i'" by simp
  with i show "((xmlString, i', indentLevel', result'), (xmlString, i, indentLevel, result))
      \<in> measure (\<lambda>(s, i, l, r). length s - i)"
    by simp
qed

definition formatXML :: "string \<Rightarrow> js_error + string" where
  "formatXML xmlString = map_sum id join_lines (formatXML_loop xmlString 0 0 [])"

text \<open>
  Tags written without attributes, a leaf element, and the indentation of a level.
  A name is valid for the function when the regular expression extracts all of it.
\<close>

definition valid_name :: "string \<Rightarrow> bool" where
  "valid_name n = (n \<noteq> [] \<and> list_all is_name_char n)"

definition open_tag :: "string \<Rightarrow> string" where
  "open_tag n = ''<'' @ n @ ''>''"

definition close_tag :: "string \<Rightarrow> string" where
  "close_tag n = ''</'' @ n @ ''>''"

definition leaf :: "string \<Rightarrow> string \<Rightarrow> string" where
  "leaf n t = open_tag n @ t @ close_tag n"

definition indent :: "int \<Rightarrow> string" where
  "indent level = concat (replicate (nat level) ''  '')"

fun shift_step :: "nat \<Rightarrow> fx_step \<Rightarrow> fx_step" where
  "shift_step k Finish = Finish"
| "shift_step k (Throw e) = Throw e"
| "shift_step k (Continue i l r) = Continue (k + i) l r"

text \<open>
  \<open>leaf_on_one_line b a t\<close>: the leaf element \<open><a>t</a>\<close> inside \<open><b>\<close> comes
  out on one line, one level below \<open>b\<close>.
\<close>

definition leaf_on_one_line :: "string \<Rightarrow> string \<Rightarrow> string \<Rightarrow> bool" where
  "leaf_on_one_line b a t =
     (formatXML (open_tag b @ leaf a t @ close_tag b) =
        Inr (open_tag b @ [CHR 0x0A] @ ''  '' @ leaf a t @ [CHR 0x0A] @ close_tag b))"

section \<open>Rewriting the namespace (transformXacmlNamespace in scripts/build-xacml.js)\<close>

text \<open>
  The function is four textual replacements. \<open>remove_declarations\<close> is
  \<open>replace(/xmlns:xacml3="[^"]*"/g, '')\<close>: scanning from the left, a match starts where
  the text reads \<open>xmlns:xacml3="\<close> and a closing double quote follows; it runs up to
  the first such quote, and the scan goes on behind it.
\<close>

definition declaration_head :: string where
  "declaration_head = ''xmlns:xacml3='' @ [CHR 0x22]"

definition declaration_length :: "string \<Rightarrow> nat option" where
  "declaration_length s =
     (let rest = drop (length declaration_head) s in
      if prefix declaration_head s \<and> CHR 0x22 \<in> set rest
      then Some (length declaration_head + length (takeWhile (\<lambda>c. c \<noteq> CHR 0x22) rest) + 1)
      else None)"

function remove_declarations :: "string \<Rightarrow> string" where
  "remove_declarations [] = []"
| "remove_declarations (c # cs) =
     (case declaration_length (c # cs) of
        None \<Rightarrow> c # remove_declarations cs
      | Some n \<Rightarrow> remove_declarations (drop n (c # cs)))"
  by pat_completeness auto
termination
  by (relation "measure length")
     (auto simp: declaration_length_def Let_def split: if_splits)

text \<open>\<open>remove_all w\<close> is \<open>replace(/w/g, '')\<close> for a literal \<open>w\<close> that is not empty.\<close>

function remove_all :: "string \<Rightarrow> string \<Rightarrow> string" where
  "remove_all w [] = []"
| "remove_all w (c # cs) =
     (if w \<noteq> [] \<and> prefix w (c # cs) then remove_all w (drop (length w) (c # cs))
      else c # remove_all w cs)"
  by pat_completeness auto
termination
  by (relation "measure (\<lambda>(w, s). length s)") (auto simp: neq_Nil_conv)

text \<open>\<open>replace_first w r\<close> is \<open>replace(/w/, r)\<close>: only the first occurrence is replaced.\<close>

definition replace_first :: "string \<Rightarrow> string \<Rightarrow> string \<Rightarrow> string" where
  "replace_first w r s =
     (case first_index w s of
        None \<Rightarrow> s
      | Some k \<Rightarrow> take k s @ r @ drop (k + length w) s)"

text \<open>\<open>collapse_spaces\<close> is \<open>replace(/\s+/g, ' ')\<close>.\<close>

function collapse_spaces :: "string \<Rightarrow> string" where
  "collapse_spaces [] = []"
| "collapse_spaces (c # cs) =
     (if is_space c then CHR '' '' # collapse_spaces (dropWhile is_space cs)
      else c # collapse_spaces cs)"
  by pat_completeness auto
termination
  by (relation "measure length") (auto simp: length_dropWhile_le less_Suc_eq_le)

definition policy_set_tag :: string where
  "policy_set_tag = ''<PolicySet ''"

definition policy_set_with_namespace :: string where
  "policy_set_with_namespace =
     ''<PolicySet xmlns='' @ [CHR 0x22] @ ''urn:oasis:names:tc:xacml:3.0:core:schema:wd-17'' @
     [CHR 0x22] @ '' ''"

definition transformXacmlNamespace :: "string \<Rightarrow> string" where
  "transformXacmlNamespace xmlContent =
     (let transformed1 = remove_declarations xmlContent;
          transformed2 = remove_all ''xacml3:'' transformed1;
          transformed3 = replace_first policy_set_tag policy_set_with_namespace transformed2
      in collapse_spaces transformed3)"

text \<open>
  \<open>prefix_uses_only prev s\<close>: every occurrence of \<open>xacml3\<close> in \<open>s\<close> is followed by a
  colon and stands after a character other than \<open>x\<close>, \<open>a\<close>, \<open>c\<close>, \<open>m\<close>, \<open>l\<close>
  and \<open>3\<close>; \<open>prev\<close> is the character before \<open>s\<close>, if there is one.
\<close>

definition may_precede :: "char option \<Rightarrow> bool" where
  "may_precede prev = (case prev of None \<Rightarrow> True | Some c \<Rightarrow> c \<notin> set ''xacml3'')"

fun prefix_uses_only :: "char option \<Rightarrow> string \<Rightarrow> bool" where
  "prefix_uses_only prev [] = True"
| "prefix_uses_only prev (c # cs) =
     ((if prefix ''xacml3'' (c # cs) then may_precede prev \<and> prefix ''xacml3:'' (c # cs) else True) \<and>
      prefix_uses_only (Some c) cs)"

text \<open>
  Policy sets as a serialiser may write them: the root tag and its first attribute on
  one line; the root tag alone on its line, the attributes on the following lines; the
  declaration in single quotes. And a text in which a deletion puts the prefix together.
\<close>

definition generated_policy_set :: string where
  "generated_policy_set =
     ''<xacml3:PolicySet xmlns:xacml3='' @ [CHR 0x22] @
     ''urn:oasis:names:tc:xacml:3.0:core:schema:wd-17'' @ [CHR 0x22] @ [CHR 0x0A] @
     ''    PolicySetId='' @ [CHR 0x22] @ ''p'' @ [CHR 0x22] @ ''>'' @ [CHR 0x0A] @
     ''  <xacml3:Description>d</xacml3:Description>'' @ [CHR 0x0A] @ ''</xacml3:PolicySet>''"

definition wrapped_policy_set :: string where
  "wrapped_policy_set =
     ''<xacml3:PolicySet'' @ [CHR 0x0A] @
     ''    xmlns:xacml3='' @ [CHR 0x22] @
     ''urn:oasis:names:tc:xacml:3.0:core:schema:wd-17'' @ [CHR 0x22] @ [CHR 0x0A] @
     ''    PolicySetId='' @ [CHR 0x22] @ ''root'' @ [CHR 0x22] @ ''>'' @ [CHR 0x0A] @
     ''</xacml3:PolicySet>''"

definition single_quoted_policy_set :: string where
  "single_quoted_policy_set =
     ''<xacml3:PolicySet xmlns:xacml3='' @ [CHR 0x27] @
     ''urn:oasis:names:tc:xacml:3.0:core:schema:wd-17'' @ [CHR 0x27] @
     '' PolicySetId='' @ [CHR 0x22] @ ''root'' @ [CHR 0x22] @ ''></xacml3:PolicySet>''"

definition rebuilding_text :: string where
  "rebuilding_text = ''<PolicySet ><xacxacml3:ml3:Rule/></PolicySet>''"

section \<open>Waiting for a condition (XacmlTestUtils.waitForCondition)\<close>

text \<open>
  The function reads the clock, awaits the caller's condition and awaits a timer. The
  model makes the surroundings explicit: for the \<open>k\<close>-th invocation of the condition,
  what it does (it returns a value, at once or through a promise, and \<open>Returns b\<close>
  says whether the \<open>if\<close> of the loop takes that value for true; it throws or its
  promise is rejected; or its promise is never settled) and how many milliseconds it
  takes; for the \<open>k\<close>-th timer, by how many milliseconds it fires late; and the
  time that passes between the reading of \<open>startTime\<close> and the first test of the
  loop. Times are integers, in milliseconds.
\<close>

datatype poll_outcome = Returns bool | Rejects | Pending

record surroundings =
  outcome :: "nat \<Rightarrow> poll_outcome"
  poll_time :: "nat \<Rightarrow> nat"
  oversleep :: "nat \<Rightarrow> nat"
  startup :: nat

text \<open>
  \<open>setTimeout(resolve, delay)\<close> of Node.js: a delay below 1 or above \<open>2\<^sup>3\<^sup>1 - 1\<close> is
  set to 1, and the timer fires once that many milliseconds have passed, or later.
\<close>

definition timer_delay :: "int \<Rightarrow> int" where
  "timer_delay delay = (if delay < 1 \<or> 2147483647 < delay then 1 else delay)"

definition settled_at :: "surroundings \<Rightarrow> int \<Rightarrow> nat \<Rightarrow> int" where
  "settled_at w now k = now + int (poll_time w k)"

definition timer_fires :: "surroundings \<Rightarrow> int \<Rightarrow> int \<Rightarrow> nat \<Rightarrow> int" where
  "timer_fires w delay set_at k = set_at + timer_delay delay + int (oversleep w k)"

text \<open>
  What the caller observes: the value returned, the exception, or a call that is
  never resumed; and the sequence of events, \<open>Poll t\<close> for an invocation of the
  condition at time \<open>t\<close> and \<open>Sleep d t\<close> for a timer set at time \<open>t\<close> with the
  delay \<open>d\<close>.
\<close>

datatype wait_result = Returned bool | Thrown | Suspended

datatype wait_event = Poll int | Sleep int int

function waitLoop ::
  "surroundings \<Rightarrow> int \<Rightarrow> int \<Rightarrow> int \<Rightarrow> int \<Rightarrow> nat \<Rightarrow> wait_result \<times> wait_event list" where
  "waitLoop w timeout interval startTime now k =
     (if now - startTime < timeout
      then (case outcome w k of
              Pending \<Rightarrow> (Suspended, [Poll now])
            | Rejects \<Rightarrow> (Thrown, [Poll now])
            | Returns b \<Rightarrow>
                if b then (Returned True, [Poll now])
                else (case waitLoop w timeout interval startTime
                             (timer_fires w interval (settled_at w now k) k) (Suc k) of
                        (res, events) \<Rightarrow>
                          (res, Poll now # Sleep interval (settled_at w now k) # events)))
      else (Returned False, []))"
  by pat_completeness auto
termination
  by (relation "measure (\<lambda>(w, timeout, interval, startTime, now, k). nat (timeout - (now - startTime)))")
     (auto simp: timer_fires_def settled_at_def timer_delay_def)

definition waitForCondition ::
  "surroundings \<Rightarrow> int \<Rightarrow> int \<Rightarrow> int \<Rightarrow> wait_result \<times> wait_event list" where
  "waitForCondition w timeout interval startTime =
     waitLoop w timeout interval startTime (startTime + int (startup w)) 0"

text \<open>
  The time at which the \<open>k\<close>-th invocation starts when the earlier ones returned false:
  each earlier invocation is followed by a timer that lasts \<open>timer_delay interval\<close>
  milliseconds or more. \<open>passes w interval startTime k n\<close> are the events of \<open>n\<close>
  unsuccessful passes, the first of them with the \<open>k\<close>-th invocation.
\<close>

fun poll_start :: "surroundings \<Rightarrow> int \<Rightarrow> int \<Rightarrow> nat \<Rightarrow> int" where
  "poll_start w interval startTime 0 = startTime + int (startup w)"
| "poll_start w interval startTime (Suc k) =
     poll_start w interval startTime k + int (poll_time w k) + timer_delay interval +
     int (oversleep w k)"

fun passes :: "surroundings \<Rightarrow> int \<Rightarrow> int \<Rightarrow> nat \<Rightarrow> nat \<Rightarrow> wait_event list" where
  "passes w interval startTime k 0 = []"
| "passes w interval startTime k (Suc n) =
     Poll (poll_start w interval startTime k) #
     Sleep interval (poll_start w interval startTime k + int (poll_time w k)) #
     passes w interval startTime (Suc k) n"

text \<open>
  \<open>well_paced interval least events\<close>: the events begin with an invocation; after
  every invocation that is not the last event comes exactly one timer, set to
  \<open>interval\<close> once the invocation has started; and the next invocation starts
  \<open>least\<close> milliseconds or more after that timer was set.
\<close>

fun well_paced :: "int \<Rightarrow> int \<Rightarrow> wait_event list \<Rightarrow> bool" where
  "well_paced interval least [] = True"
| "well_paced interval least [Poll t] = True"
| "well_paced interval least [Poll t, Sleep d s] = (d = interval \<and> t \<le> s)"
| "well_paced interval least (Poll t # Sleep d s # Poll t' # rest) =
     (d = interval \<and> t \<le> s \<and> s + least \<le> t' \<and> well_paced interval least (Poll t' # rest))"
| "well_paced interval least (Poll t # Sleep d s # Sleep d' s' # rest) = False"
| "well_paced interval least (Poll t # Poll t' # rest) = False"
| "well_paced interval least (Sleep d s # rest) = False"

text \<open>
  Examples: a condition that holds at its third invocation, one that never holds, one
  that throws, one whose promise is never settled, and one that holds at its second
  invocation.
\<close>

definition third_time :: surroundings where
  "third_time = \<lparr>outcome = (\<lambda>k. Returns (2 \<le> k)), poll_time = (\<lambda>k. 5), oversleep = (\<lambda>k. 0),
     startup = 0\<rparr>"

definition never :: surroundings where
  "never = \<lparr>outcome = (\<lambda>k. Returns False), poll_time = (\<lambda>k. 0), oversleep = (\<lambda>k. 0),
     startup = 0\<rparr>"

definition failing :: surroundings where
  "failing = \<lparr>outcome = (\<lambda>k. Rejects), poll_time = (\<lambda>k. 0), oversleep = (\<lambda>k. 0),
     startup = 0\<rparr>"

definition stuck :: surroundings where
  "stuck = \<lparr>outcome = (\<lambda>k. Pending), poll_time = (\<lambda>k. 0), oversleep = (\<lambda>k. 0),
     startup = 0\<rparr>"

definition second_time :: surroundings where
  "second_time = \<lparr>outcome = (\<lambda>k. Returns (1 \<le> k)), poll_time = (\<lambda>k. 0), oversleep = (\<lambda>k. 0),
     startup = 0\<rparr>"

section \<open>Properties of the request builder\<close>

lemma wrappers_buildRequestXml:
  "wrappers (buildRequestXml q) = map attributes_element (Attributes (buildRequestObj q))"
  by (simp add: wrappers_def buildRequestXml_def request_element_def child_elements_def
      attributes_element_def filter_map o_def)

lemma subject_id_subject [simp]: "id_includes ''subject'' (subject_attribute kv)"
  by (simp add: id_includes_def subject_attribute_def)
lemma subject_id_resource [simp]: "id_includes ''resource'' (subject_attribute kv) = str_includes (fst kv) ''resource''"
  by (simp add: id_includes_def subject_attribute_def)
lemma subject_id_action [simp]: "id_includes ''action'' (subject_attribute kv) = str_includes (fst kv) ''action''"
  by (simp add: id_includes_def subject_attribute_def)
lemma resource_id_subject [simp]: "id_includes ''subject'' (resource_attribute kv) = str_includes (fst kv) ''subject''"
  by (simp add: id_includes_def resource_attribute_def)
lemma resource_id_resource [simp]: "id_includes ''resource'' (resource_attribute kv)"
  by (simp add: id_includes_def resource_attribute_def)
lemma resource_id_action [simp]: "id_includes ''action'' (resource_attribute kv) = str_includes (fst kv) ''action''"
  by (simp add: id_includes_def resource_attribute_def)
lemma action_id_subject [simp]: "id_includes ''subject'' (action_attribute kv) = str_includes (fst kv) ''subject''"
  by (simp add: id_includes_def action_attribute_def)
lemma action_id_resource [simp]: "id_includes ''resource'' (action_attribute kv) = str_includes (fst kv) ''resource''"
  by (simp add: id_includes_def action_attribute_def)
lemma action_id_action [simp]: "id_includes ''action'' (action_attribute kv)"
  by (simp add: id_includes_def action_attribute_def)

lemma collect_attributes_entries:
  "collect_attributes q =
     map subject_attribute (subject_entries q) @ map resource_attribute (resource_entries q) @
     map action_attribute (action_entries q)"
  by (simp add: collect_attributes_def subject_part_def resource_part_def resources_part_def
      action_part_def subject_entries_def resource_entries_def action_entries_def map_concat
      split: option.splits)

lemma filter_map_all: "(\<And>x. P (f x)) \<Longrightarrow> filter P (map f xs) = map f xs"
  by (induction xs) auto

lemma filter_map_avoid:
  "(\<And>kv. P (f kv) = str_includes (fst kv) w) \<Longrightarrow> keys_avoid w bag \<Longrightarrow> filter P (map f bag) = []"
  by (induction bag) (auto simp: keys_avoid_def)

lemma subject_filter_contains:
  "\<exists>rest. filter (id_includes ''subject'') (collect_attributes q) =
     map subject_attribute (subject_entries q) @ rest"
  by (simp add: collect_attributes_entries filter_map_all)

lemma resource_filter_contains:
  "\<exists>pre post. filter (id_includes ''resource'') (collect_attributes q) =
     pre @ map resource_attribute (resource_entries q) @ post"
  by (simp add: collect_attributes_entries filter_map_all) blast

lemma action_filter_contains:
  "\<exists>pre. filter (id_includes ''action'') (collect_attributes q) =
     pre @ map action_attribute (action_entries q)"
  by (simp add: collect_attributes_entries filter_map_all) 

lemma subject_filter_exact:
  "keys_keep_to_category q \<Longrightarrow>
   filter (id_includes ''subject'') (collect_attributes q) = map subject_attribute (subject_entries q)"
  by (simp add: collect_attributes_entries filter_map_all keys_keep_to_category_def
      filter_map_avoid [where w = "''subject''"])

lemma resource_filter_exact:
  "keys_keep_to_category q \<Longrightarrow>
   filter (id_includes ''resource'') (collect_attributes q) = map resource_attribute (resource_entries q)"
  by (simp add: collect_attributes_entries filter_map_all keys_keep_to_category_def
      filter_map_avoid [where w = "''resource''"])

lemma action_filter_exact:
  "keys_keep_to_category q \<Longrightarrow>
   filter (id_includes ''action'') (collect_attributes q) = map action_attribute (action_entries q)"
  by (simp add: collect_attributes_entries filter_map_all keys_keep_to_category_def
      filter_map_avoid [where w = "''action''"])

lemma categories_distinct [simp]:
  "subject_category \<noteq> resource_category" "subject_category \<noteq> action_category"
  "resource_category \<noteq> action_category" "resource_category \<noteq> subject_category"
  "action_category \<noteq> subject_category" "action_category \<noteq> resource_category"
  by (simp_all add: subject_category_def resource_category_def action_category_def)

lemma category_attributes_element [simp]:
  "attribute_of ''Category'' (attributes_element c) = Some (Category c)"
  by (simp add: attributes_element_def)

lemma wrappers_of_buildRequestXml:
  "wrappers_of cat (buildRequestXml q) =
     map attributes_element (filter (\<lambda>c. Category c = cat) (Attributes (buildRequestObj q)))"
  by (simp add: wrappers_of_def wrappers_buildRequestXml filter_map o_def)

lemma wrappers_of_subject:
  "wrappers_of subject_category (buildRequestXml q) =
     (if filter (id_includes ''subject'') (collect_attributes q) = [] then []
      else [attributes_element \<lparr>Category = subject_category,
              Attribute = filter (id_includes ''subject'') (collect_attributes q)\<rparr>])"
  by (simp add: wrappers_of_buildRequestXml buildRequestObj_def Let_def)

lemma wrappers_of_resource:
  "wrappers_of resource_category (buildRequestXml q) =
     (if filter (id_includes ''resource'') (collect_attributes q) = [] then []
      else [attributes_element \<lparr>Category = resource_category,
              Attribute = filter (id_includes ''resource'') (collect_attributes q)\<rparr>])"
  by (simp add: wrappers_of_buildRequestXml buildRequestObj_def Let_def)

lemma wrappers_of_action:
  "wrappers_of action_category (buildRequestXml q) =
     (if filter (id_includes ''action'') (collect_attributes q) = [] then []
      else [attributes_element \<lparr>Category = action_category,
              Attribute = filter (id_includes ''action'') (collect_attributes q)\<rparr>])"
  by (simp add: wrappers_of_buildRequestXml buildRequestObj_def Let_def)

lemma wrappers_of_other:
  "cat \<noteq> subject_category \<Longrightarrow> cat \<noteq> resource_category \<Longrightarrow> cat \<noteq> action_category \<Longrightarrow>
   wrappers_of cat (buildRequestXml q) = []"
  by (auto simp add: wrappers_of_buildRequestXml buildRequestObj_def Let_def)

lemma wrappers_of_at_most_one: "length (wrappers_of cat (buildRequestXml q)) \<le> 1"
  by (cases "cat = subject_category"; cases "cat = resource_category"; cases "cat = action_category")
     (simp_all add: wrappers_of_subject wrappers_of_resource wrappers_of_action wrappers_of_other)

lemmas example_defs = owner_query_def no_bags_def person_query_def time_query_def role_query_def
  subject_entries_def resource_entries_def action_entries_def environment_entries_def


lemma attributes_under_subject:
  "attributes_under subject_category (buildRequestXml q) =
     map attribute_element (filter (id_includes ''subject'') (collect_attributes q))"
  by (simp add: attributes_under_def wrappers_of_subject attributes_element_def child_elements_def
      attribute_element_def)

lemma attributes_under_resource:
  "attributes_under resource_category (buildRequestXml q) =
     map attribute_element (filter (id_includes ''resource'') (collect_attributes q))"
  by (simp add: attributes_under_def wrappers_of_resource attributes_element_def child_elements_def
      attribute_element_def)

lemma attributes_under_action:
  "attributes_under action_category (buildRequestXml q) =
     map attribute_element (filter (id_includes ''action'') (collect_attributes q))"
  by (simp add: attributes_under_def wrappers_of_action attributes_element_def child_elements_def
      attribute_element_def)

lemma each_in_own_wrapper_if_keys_keep:
  "keys_keep_to_category q \<Longrightarrow> each_in_own_wrapper q (buildRequestXml q)"
  by (simp add: each_in_own_wrapper_def attributes_under_subject attributes_under_resource
      attributes_under_action subject_filter_exact resource_filter_exact action_filter_exact)

text \<open>
  Claim C2 says that every \<open>Attribute\<close> element stands in exactly one wrapper, that
  of the category of the bag it came from, whatever the keys are. The wrappers are
  filled by testing whether the attribute id \<^emph>\<open>contains\<close> the word \<open>subject\<close>,
  \<open>resource\<close> or \<open>action\<close>, and the id ends in the caller's key. For the request
  with the single subject attribute \<open>resource-owner\<close> the document has a subject
  wrapper and a resource wrapper, both holding that attribute, although the request
  has no resource entry.
\<close>

theorem substring_match_duplicates_attribute:
  "map (\<lambda>w. (attribute_of ''Category'' w, attribute_ids w)) (wrappers (buildRequestXml owner_query)) =
     [(Some subject_category, [''urn:oasis:names:tc:xacml:1.0:subject:resource-owner'']),
      (Some resource_category, [''urn:oasis:names:tc:xacml:1.0:subject:resource-owner''])] \<and>
   resource_entries owner_query = [] \<and>
   \<not> each_in_own_wrapper owner_query (buildRequestXml owner_query)"
  by (simp add: wrappers_buildRequestXml buildRequestObj_def collect_attributes_entries
      example_defs Let_def each_in_own_wrapper_def attributes_under_resource
      attribute_ids_def attributes_element_def child_elements_def attribute_element_def
      subject_attribute_def id_includes_def)

text \<open>
  Claim C3, as stated, counts the environment bag among the bags: a request whose
  only entries are in the environment bag has a non-empty bag, and its document has
  no \<open>Attributes\<close> element at all.
\<close>

theorem environment_bag_gets_no_wrapper:
  "environment_entries time_query \<noteq> [] \<and>
   wrappers (buildRequestXml time_query) = [] \<and>
   \<not> one_wrapper_per_category time_query (buildRequestXml time_query)"
  by (simp add: one_wrapper_per_category_def wrapper_count_matches_def wrappers_of_def
      wrappers_buildRequestXml buildRequestObj_def collect_attributes_entries example_defs Let_def)

lemma environment_category_other [simp]:
  "environment_category \<noteq> subject_category" "environment_category \<noteq> resource_category"
  "environment_category \<noteq> action_category"
  by (simp_all add: environment_category_def subject_category_def resource_category_def
      action_category_def)

lemma nonempty_subject_filter:
  "subject_entries q \<noteq> [] \<Longrightarrow> filter (id_includes ''subject'') (collect_attributes q) \<noteq> []"
  using subject_filter_contains [of q] by auto

lemma nonempty_resource_filter:
  "resource_entries q \<noteq> [] \<Longrightarrow> filter (id_includes ''resource'') (collect_attributes q) \<noteq> []"
  using resource_filter_contains [of q] by auto

lemma nonempty_action_filter:
  "action_entries q \<noteq> [] \<Longrightarrow> filter (id_includes ''action'') (collect_attributes q) \<noteq> []"
  using action_filter_contains [of q] by auto

text \<open>
  Claim C3, amended: for every request the document has at most one \<open>Attributes\<close>
  element per category and none for a category other than access-subject, resource
  and action (so none for the environment); it has exactly one for each of these
  three categories that has an entry; and when no key contains the word that marks
  another category, it has none for a category among the three without entries.
\<close>

theorem wrappers_per_encoded_category:
  "(\<forall>cat. length (wrappers_of cat (buildRequestXml q)) \<le> 1) \<and>
   (\<forall>cat. cat \<noteq> subject_category \<and> cat \<noteq> resource_category \<and> cat \<noteq> action_category \<longrightarrow>
      wrappers_of cat (buildRequestXml q) = []) \<and>
   wrappers_of environment_category (buildRequestXml q) = [] \<and>
   (subject_entries q \<noteq> [] \<longrightarrow> length (wrappers_of subject_category (buildRequestXml q)) = 1) \<and>
   (resource_entries q \<noteq> [] \<longrightarrow> length (wrappers_of resource_category (buildRequestXml q)) = 1) \<and>
   (action_entries q \<noteq> [] \<longrightarrow> length (wrappers_of action_category (buildRequestXml q)) = 1) \<and>
   (keys_keep_to_category q \<longrightarrow>
      wrapper_count_matches subject_category (subject_entries q) (buildRequestXml q) \<and>
      wrapper_count_matches resource_category (resource_entries q) (buildRequestXml q) \<and>
      wrapper_count_matches action_category (action_entries q) (buildRequestXml q))"
proof (intro conjI allI impI)
  fix cat
  show "length (wrappers_of cat (buildRequestXml q)) \<le> 1"
    by (rule wrappers_of_at_most_one)
next
  fix cat
  assume "cat \<noteq> subject_category \<and> cat \<noteq> resource_category \<and> cat \<noteq> action_category"
  then show "wrappers_of cat (buildRequestXml q) = []"
    by (simp add: wrappers_of_other)
next
  show "wrappers_of environment_category (buildRequestXml q) = []"
    by (simp add: wrappers_of_other)
next
  assume "subject_entries q \<noteq> []"
  then show "length (wrappers_of subject_category (buildRequestXml q)) = 1"
    by (simp add: wrappers_of_subject nonempty_subject_filter)
next
  assume "resource_entries q \<noteq> []"
  then show "length (wrappers_of resource_category (buildRequestXml q)) = 1"
    by (simp add: wrappers_of_resource nonempty_resource_filter)
next
  assume "action_entries q \<noteq> []"
  then show "length (wrappers_of action_category (buildRequestXml q)) = 1"
    by (simp add: wrappers_of_action nonempty_action_filter)
next
  assume k: "keys_keep_to_category q"
  show "wrapper_count_matches subject_category (subject_entries q) (buildRequestXml q)"
    by (simp add: wrapper_count_matches_def wrappers_of_subject subject_filter_exact [OF k])
  show "wrapper_count_matches resource_category (resource_entries q) (buildRequestXml q)"
    by (simp add: wrapper_count_matches_def wrappers_of_resource resource_filter_exact [OF k])
  show "wrapper_count_matches action_category (action_entries q) (buildRequestXml q)"
    by (simp add: wrapper_count_matches_def wrappers_of_action action_filter_exact [OF k])
qed

lemma person_query_keys: "keys_keep_to_category person_query"
  by (simp add: keys_keep_to_category_def keys_avoid_def example_defs)

theorem wrappers_per_encoded_category_witness:
  "keys_keep_to_category person_query \<and>
   subject_entries person_query = [] \<and>
   wrappers_of subject_category (buildRequestXml person_query) = [] \<and>
   resource_entries person_query \<noteq> [] \<and>
   length (wrappers_of resource_category (buildRequestXml person_query)) = 1 \<and>
   length (wrappers_of action_category (buildRequestXml person_query)) = 1 \<and>
   wrappers_of environment_category (buildRequestXml person_query) = []"
  using wrappers_per_encoded_category [of person_query] person_query_keys
  by (simp add: wrapper_count_matches_def example_defs)

text \<open>
  Claim C5: the request with the two \<open>resources\<close> bags for \<open>urn:klf:ds:person\<close>
  and \<open>urn:klf:ds:field:person.name\<close> and the action \<open>read\<close> gives one
  resource wrapper with exactly two \<open>Attribute\<close> elements, both with the id
  \<open>urn:oasis:names:tc:xacml:1.0:resource:resource-id\<close> and with the two values. For
  every request there is at most one resource wrapper, and the attributes of the
  \<open>resource\<close> bag followed by those of the \<open>resources\<close> array stand together in it.
\<close>

theorem resources_merged_into_resource_wrapper:
  "wrappers_of resource_category (buildRequestXml person_query) =
     [Element None ''Attributes''
        [(''Category'', ''urn:oasis:names:tc:xacml:3.0:attribute-category:resource'')]
        [Element None ''Attribute''
           [(''AttributeId'', ''urn:oasis:names:tc:xacml:1.0:resource:resource-id''),
            (''IncludeInResult'', ''false'')]
           [Element None ''AttributeValue''
              [(''DataType'', ''http://www.w3.org/2001/XMLSchema#string'')]
              [Text ''urn:klf:ds:person'']],
         Element None ''Attribute''
           [(''AttributeId'', ''urn:oasis:names:tc:xacml:1.0:resource:resource-id''),
            (''IncludeInResult'', ''false'')]
           [Element None ''AttributeValue''
              [(''DataType'', ''http://www.w3.org/2001/XMLSchema#string'')]
              [Text ''urn:klf:ds:field:person.name'']]]] \<and>
   (\<forall>q. length (wrappers_of resource_category (buildRequestXml q)) \<le> 1 \<and>
      (\<exists>before after. attributes_under resource_category (buildRequestXml q) =
         before @ map (attribute_element \<circ> resource_attribute) (resource_entries q) @ after))"
proof (intro conjI allI)
  show "wrappers_of resource_category (buildRequestXml person_query) =
     [Element None ''Attributes''
        [(''Category'', ''urn:oasis:names:tc:xacml:3.0:attribute-category:resource'')]
        [Element None ''Attribute''
           [(''AttributeId'', ''urn:oasis:names:tc:xacml:1.0:resource:resource-id''),
            (''IncludeInResult'', ''false'')]
           [Element None ''AttributeValue''
              [(''DataType'', ''http://www.w3.org/2001/XMLSchema#string'')]
              [Text ''urn:klf:ds:person'']],
         Element None ''Attribute''
           [(''AttributeId'', ''urn:oasis:names:tc:xacml:1.0:resource:resource-id''),
            (''IncludeInResult'', ''false'')]
           [Element None ''AttributeValue''
              [(''DataType'', ''http://www.w3.org/2001/XMLSchema#string'')]
              [Text ''urn:klf:ds:field:person.name'']]]]"
    unfolding wrappers_of_resource resource_filter_exact [OF person_query_keys]
    by (simp add: example_defs attributes_element_def attribute_element_def
        resource_attribute_def resource_category_def string_type_def)
next
  fix q
  show "length (wrappers_of resource_category (buildRequestXml q)) \<le> 1"
    by (rule wrappers_of_at_most_one)
next
  fix q
  obtain pre post where
    "filter (id_includes ''resource'') (collect_attributes q) =
       pre @ map resource_attribute (resource_entries q) @ post"
    using resource_filter_contains [of q] by blast
  then have "attributes_under resource_category (buildRequestXml q) =
      map attribute_element pre @
      map (attribute_element \<circ> resource_attribute) (resource_entries q) @
      map attribute_element post"
    by (simp add: attributes_under_resource)
  then show "\<exists>before after. attributes_under resource_category (buildRequestXml q) =
         before @ map (attribute_element \<circ> resource_attribute) (resource_entries q) @ after"
    by blast
qed

lemma buildRequestXml_ignores_environment:
  "buildRequestXml (q\<lparr>environment := e\<rparr>) = buildRequestXml q"
  by (simp add: buildRequestXml_def buildRequestObj_def collect_attributes_def subject_part_def
      resource_part_def resources_part_def action_part_def)

lemma no_environment_prefix [simp]:
  "\<not> prefix environment_prefix (AttributeId (subject_attribute kv))"
  "\<not> prefix environment_prefix (AttributeId (resource_attribute kv))"
  "\<not> prefix environment_prefix (AttributeId (action_attribute kv))"
  by (simp_all add: environment_prefix_def subject_attribute_def resource_attribute_def
      action_attribute_def)

lemma collected_ids_not_environment:
  "a \<in> set (collect_attributes q) \<Longrightarrow> \<not> prefix environment_prefix (AttributeId a)"
  by (auto simp: collect_attributes_entries)

lemma attribute_ids_attributes_element:
  "attribute_ids (attributes_element c) = map AttributeId (Attribute c)"
  by (simp add: attribute_ids_def attributes_element_def child_elements_def attribute_element_def
      o_def)

lemma wrapper_ids_subset:
  "w \<in> set (wrappers (buildRequestXml q)) \<Longrightarrow>
   set (attribute_ids w) \<subseteq> AttributeId ` set (collect_attributes q)"
  by (auto simp: wrappers_buildRequestXml buildRequestObj_def Let_def
      attribute_ids_attributes_element split: if_splits)

text \<open>
  Claim C10: the document does not depend on the environment bag; it has no wrapper of
  the environment category and no attribute whose id starts with the environment
  prefix.
\<close>

theorem environment_bag_never_encoded:
  "buildRequestXml (q\<lparr>environment := e\<rparr>) = buildRequestXml q \<and>
   wrappers_of environment_category (buildRequestXml q) = [] \<and>
   (\<forall>w \<in> set (wrappers (buildRequestXml q)). \<forall>i \<in> set (attribute_ids w).
      \<not> prefix environment_prefix i)"
proof (intro conjI ballI)
  show "buildRequestXml (q\<lparr>environment := e\<rparr>) = buildRequestXml q"
    by (rule buildRequestXml_ignores_environment)
  show "wrappers_of environment_category (buildRequestXml q) = []"
    by (simp add: wrappers_of_other)
next
  fix w i
  assume "w \<in> set (wrappers (buildRequestXml q))" and "i \<in> set (attribute_ids w)"
  then obtain a where "a \<in> set (collect_attributes q)" and "i = AttributeId a"
    using wrapper_ids_subset by blast
  then show "\<not> prefix environment_prefix i"
    by (simp add: collected_ids_not_environment)
qed

theorem environment_bag_never_encoded_witness:
  "buildRequestXml role_query = buildRequestXml (role_query\<lparr>environment := None\<rparr>) \<and>
   environment_entries role_query \<noteq> [] \<and>
   wrappers_of environment_category (buildRequestXml role_query) = [] \<and>
   length (wrappers (buildRequestXml role_query)) = 3 \<and>
   list_all (\<lambda>w. list_all (\<lambda>i. \<not> prefix environment_prefix i) (attribute_ids w))
     (wrappers (buildRequestXml role_query))"
  using environment_bag_never_encoded [where q = role_query and e = None]
  apply (simp add: list_all_iff)
  apply (simp add: wrappers_buildRequestXml buildRequestObj_def collect_attributes_entries
      example_defs Let_def id_includes_def subject_attribute_def resource_attribute_def
      action_attribute_def)
  done

section \<open>Properties of the response readers\<close>

lemma select_text_empty:
  "select_elements n doc = [] \<Longrightarrow> select_text n doc = []"
proof (induction doc)
  case (Element p l as ks)
  from Element.prems have ln: "l \<noteq> n"
    by (auto simp: select_elements_def split: if_splits)
  have "select_text n k = []" if "k \<in> set ks" for k
  proof (rule Element.IH [OF that])
    from Element.prems that show "select_elements n k = []"
      by (auto simp: select_elements_def filter_empty_conv split: if_splits)
  qed
  with ln show ?case by simp
qed simp_all

text \<open>
  Claim C1: when the document has no element with the local name \<open>Decision\<close>,
  \<open>parseDecisionResponse\<close> ends in an error and returns no decision; when the
  document passes the parser-error check, the error is the one thrown for the missing
  decision.
\<close>

theorem missing_decision_is_error:
  assumes "select_elements ''Decision'' doc = []"
  shows "isl (parseDecisionResponse doc) \<and>
         (getElementsByTagName ''parsererror'' doc = [] \<longrightarrow>
            parseDecisionResponse doc = Inl (Error ''No Decision element found in response''))"
  using assms
  by (simp add: parseDecisionResponse_def parseXmlToDom_def select_text_empty
      split: list.splits)

theorem missing_decision_is_error_witness:
  "select_elements ''Decision'' undecided_response = [] \<and>
   parseDecisionResponse undecided_response =
     Inl (Error ''No Decision element found in response'')"
proof -
  have a: "select_elements ''Decision'' undecided_response = []"
    by (simp add: undecided_response_def select_elements_def)
  have b: "getElementsByTagName ''parsererror'' undecided_response = []"
    by (simp add: undecided_response_def getElementsByTagName_def)
  from missing_decision_is_error [OF a] b show ?thesis
    using a by simp
qed

text \<open>
  Claim C6 says that the example response decodes to the status
  \<open>urn:oasis:names:tc:xacml:1.0:status:ok\<close>, the value of the attribute. The source
  takes \<open>toString()\<close> of the attribute node, which is the attribute as it is written in
  XML: a space, the name \<open>Value\<close> and the quoted value. The decision, the obligations
  and the advice are as the claim says.
\<close>

theorem status_is_written_attribute:
  "parseDecisionResponse permit_response =
     Inr \<lparr>decision = ''Permit'',
          status = Some ('' Value='' @ [CHR 0x22] @ status_ok @ [CHR 0x22]),
          obligations = [], advice = []\<rparr> \<and>
   '' Value='' @ [CHR 0x22] @ status_ok @ [CHR 0x22] \<noteq> status_ok"
  by (simp add: parseDecisionResponse_def parseXmlToDom_def getElementsByTagName_def
      permit_response_def select_attribute_def select_elements_def text_toString_def
      attribute_toString_def xml_escape_text_def xml_escape_attribute_def status_ok_def)

text \<open>
  Claim C4 says that a response decodes to the same result with the prefix \<open>ns3:\<close>
  on every tag and with no prefix. The version of \<open>parseDecisionResponse\<close> on
  \<open>xml2js\<close> looks up \<open>ns3:Response\<close>, \<open>ns3:Result\<close>, \<open>ns3:Decision\<close> and
  \<open>ns3:Status\<close> beside the plain names, but \<open>StatusCode\<close>, \<open>Obligations\<close> and
  \<open>AssociatedAdvice\<close> by the plain name only: the example response decodes without
  prefixes and ends in a TypeError with them.
\<close>

theorem xml2js_reader_depends_on_prefix:
  "parseDecisionResponse_xml2js (with_prefix None permit_response) =
     Inr \<lparr>decision_value = JString ''Permit'', status_value = JString status_ok,
          obligations_value = JArray [], advice_value = JArray []\<rparr> \<and>
   parseDecisionResponse_xml2js (with_prefix (Some ''ns3'') permit_response) = Inl TypeError"
  by (simp add: parseDecisionResponse_xml2js_def parseStringPromise_def permit_response_def
      xml2js_object_def own_text_def group_by_tag_def then_do_def js_or_def status_ok_def
      is_blank_def)

text \<open>
  The version on XPath selects by local name. It gives the same decision and status
  for both variants of a document, and the same obligation and advice elements, each
  in the variant read, as long as no element has the local name \<open>parsererror\<close>
  (the parser-error check compares the qualified tag name).
\<close>

lemma descendant_elements_with_prefix:
  "descendant_elements (with_prefix p d) = map (with_prefix p) (descendant_elements d)"
proof (induction d)
  case (Element q l as ks)
  then show ?case by (simp add: o_def map_concat cong: map_cong)
qed simp_all

lemma is_element_named_with_prefix [simp]:
  "is_element_named n (with_prefix p d) = is_element_named n d"
  by (cases d) simp_all

lemma select_elements_with_prefix:
  "select_elements n (with_prefix p d) = map (with_prefix p) (select_elements n d)"
  by (simp add: select_elements_def descendant_elements_with_prefix filter_map o_def)

lemma text_data_with_prefix [simp]: "text_data (with_prefix p d) = text_data d"
  by (cases d) simp_all

lemma select_text_with_prefix: "select_text n (with_prefix p d) = select_text n d"
proof (induction d)
  case (Element q l as ks)
  then show ?case by (simp add: o_def cong: map_cong if_cong)
qed simp_all

lemma attribute_nodes_with_prefix [simp]:
  "attribute_nodes a (with_prefix p d) = attribute_nodes a d"
  by (cases d) simp_all

lemma select_attribute_with_prefix:
  "select_attribute n a (with_prefix p d) = select_attribute n a d"
  by (simp add: select_attribute_def select_elements_with_prefix o_def)

lemma tag_name_parsererror:
  "tag_name d = ''parsererror'' \<Longrightarrow> is_element_named ''parsererror'' d"
proof (cases d)
  case (Element p l as ks)
  assume t: "tag_name d = ''parsererror''"
  show ?thesis
  proof (cases p)
    case None
    with Element t show ?thesis by simp
  next
    case (Some q)
    with Element t have "q @ '':'' @ l = ''parsererror''" by simp
    then have "CHR '':'' \<in> set ''parsererror''"
      by (metis append_Cons in_set_conv_decomp)
    then show ?thesis by simp
  qed
qed simp_all

lemma no_parsererror_with_prefix:
  assumes "select_elements ''parsererror'' d = []"
  shows "getElementsByTagName ''parsererror'' (with_prefix p d) = []"
proof -
  have "select_elements ''parsererror'' (with_prefix p d) = []"
    using assms by (simp add: select_elements_with_prefix)
  then show ?thesis
    by (auto simp: getElementsByTagName_def select_elements_def filter_empty_conv
        dest: tag_name_parsererror)
qed

lemma with_prefix_twice [simp]: "with_prefix p (with_prefix q d) = with_prefix p d"
  by (induction d) (simp_all cong: map_cong)

lemma xpath_reader_ignores_prefix:
  assumes "select_elements ''parsererror'' d = []"
  shows "parseDecisionResponse (with_prefix p d) =
     map_sum id (\<lambda>r. r\<lparr>obligations := map (with_prefix p) (obligations r),
                        advice := map (with_prefix p) (advice r)\<rparr>)
       (parseDecisionResponse (with_prefix None d))"
  using no_parsererror_with_prefix [OF assms, of p] no_parsererror_with_prefix [OF assms, of None]
  by (simp add: parseDecisionResponse_def parseXmlToDom_def select_text_with_prefix
      select_attribute_with_prefix select_elements_with_prefix Let_def o_def
      split: option.splits)

lemma parsererror_check_sees_prefix:
  "isl (parseDecisionResponse (with_prefix None
      (Element None ''Response'' []
        [Element None ''parsererror'' [] [], Element None ''Decision'' [] [Text ''Permit'']]))) \<and>
   \<not> isl (parseDecisionResponse (with_prefix (Some ''ns3'')
      (Element None ''Response'' []
        [Element None ''parsererror'' [] [], Element None ''Decision'' [] [Text ''Permit'']])))"
  by (simp add: parseDecisionResponse_def parseXmlToDom_def getElementsByTagName_def
      text_toString_def xml_escape_text_def select_attribute_def select_elements_def)

section \<open>Properties of formatXML\<close>

lemma map_option_plus0 [simp]: "map_option ((+) (0::nat)) x = x"
  by (cases x) simp_all

lemma first_index_prefix: "prefix n h \<Longrightarrow> first_index n h = Some 0"
  by (cases h) auto

lemma first_index_skip:
  "c \<notin> set t \<Longrightarrow>
   first_index (c # n) (t @ h) = map_option (\<lambda>k. length t + k) (first_index (c # n) h)"
proof (induction t)
  case Nil
  show ?case by (cases "first_index (c # n) h") simp_all
next
  case (Cons x t)
  then show ?case by (cases "first_index (c # n) h") auto
qed

lemma first_index_after:
  "c \<notin> set t \<Longrightarrow> first_index (c # n) (t @ (c # n) @ h) = Some (length t)"
  by (simp add: first_index_skip first_index_prefix)

lemma indexOf_lower: "indexOf s n i = Some k \<Longrightarrow> i < length s \<Longrightarrow> i \<le> k"
  by (auto simp: indexOf_def Let_def min_def)

lemma indexOf_start: "indexOf s n 0 = first_index n s"
  by (simp add: indexOf_def)

lemma min_plus_left: "min (p + x) (p + y) = p + min (x::nat) y"
  by (simp add: min_def)

lemma max_plus_left: "max (p + x) (p + y) = p + max (x::nat) y"
  by (simp add: max_def)

lemma indexOf_shift:
  "indexOf (a @ b) n (length a + i) = map_option (\<lambda>k. length a + k) (indexOf b n i)"
  by (cases "first_index n (drop (min i (length b)) b)")
     (simp_all add: indexOf_def Let_def min_plus_left)

lemma substring_shift:
  "substring (a @ b) (length a + x) (length a + y) = substring b x y"
  by (simp add: substring_def min_plus_left max_plus_left)

lemma substring_start: "substring s 0 k = take k s"
  by (simp add: substring_def)

lemma substring_le: "a \<le> b \<Longrightarrow> substring s a b = take (b - a) (drop a s)"
  by (simp add: substring_def min_def max_def)

lemma str_includes_char: "str_includes h [c] = (c \<in> set h)"
  by (induction h) auto

lemma js_trim_empty: "(js_trim s = []) = is_blank s"
proof -
  have a: "(dropWhile is_space s = []) = list_all is_space s"
    by (induction s) auto
  have b: "dropWhile is_space (rev (dropWhile is_space s)) = [] \<longleftrightarrow> dropWhile is_space s = []"
  proof
    assume "dropWhile is_space (rev (dropWhile is_space s)) = []"
    then have all_space: "\<forall>x \<in> set (dropWhile is_space s). is_space x"
      by (simp add: dropWhile_eq_Nil_conv)
    show "dropWhile is_space s = []"
    proof (cases "dropWhile is_space s")
      case (Cons x xs)
      then have "\<not> is_space x" using hd_dropWhile [of is_space s] by auto
      with all_space Cons show ?thesis by simp
    qed simp
  next
    assume "dropWhile is_space s = []"
    then show "dropWhile is_space (rev (dropWhile is_space s)) = []"
      by (simp only: rev.simps dropWhile.simps)
  qed
  show ?thesis by (simp only: js_trim_def is_blank_def rev_is_Nil_conv b a)
qed

lemma indexOf_shift_Suc:
  "indexOf (a @ b) n (Suc (length a + i)) = map_option (\<lambda>k. length a + k) (indexOf b n (Suc i))"
  using indexOf_shift [of a b n "Suc i"] by simp

lemma substring_shift_Suc:
  "substring (a @ b) (Suc (length a + x)) (length a + y) = substring b (Suc x) y"
  "substring (a @ b) (length a + x) (Suc (length a + y)) = substring b x (Suc y)"
  using substring_shift [of a b "Suc x" y] substring_shift [of a b x "Suc y"] by simp_all

lemma push_indented_shift:
  "push_indented c line (length a + i) l r = shift_step (length a) (push_indented c line i l r)"
  by (simp add: push_indented_def split: sum.splits)

lemma opening_tag_shift:
  "opening_tag (a @ b) (length a + te) fullTag l r =
     shift_step (length a) (opening_tag b te fullTag l r)"
proof (cases "tag_name_match fullTag")
  case None
  then show ?thesis by (simp add: opening_tag_def)
next
  case (Some tagName)
  show ?thesis
  proof (cases "indexOf b (''</'' @ tagName @ ''>'') (Suc te)")
    case None
    with Some show ?thesis
      using push_indented_shift [of l fullTag a "Suc te"]
      by (simp add: opening_tag_def indexOf_shift_Suc)
  next
    case (Some cs)
    with \<open>tag_name_match fullTag = Some tagName\<close> show ?thesis
      using push_indented_shift [of l fullTag a "Suc te"]
        push_indented_shift [of l _ a "cs + length (''</'' @ tagName @ ''>'')"]
      by (simp add: opening_tag_def indexOf_shift_Suc substring_shift_Suc Let_def add.assoc)
  qed
qed

lemma formatXML_step_shift:
  "formatXML_step (a @ b) (length a + i) l r = shift_step (length a) (formatXML_step b i l r)"
proof (cases "indexOf b ''<'' i")
  case None
  then show ?thesis by (simp add: formatXML_step_def indexOf_shift)
next
  case (Some ts)
  note ts = this
  show ?thesis
  proof (cases "indexOf b ''>'' ts")
    case None
    with ts show ?thesis by (simp add: formatXML_step_def indexOf_shift)
  next
    case (Some te)
    with ts show ?thesis
      using push_indented_shift [of _ _ a "Suc te"]
      by (simp add: formatXML_step_def indexOf_shift substring_shift_Suc opening_tag_shift Let_def)
  qed
qed

lemma formatXML_loop_shift:
  "formatXML_loop (a @ b) (length a + i) l r = formatXML_loop b i l r"
proof (induction b i l r rule: formatXML_loop.induct)
  case (1 b i l r)
  show ?case
  proof (cases "i < length b")
    case False
    then show ?thesis by simp
  next
    case True
    show ?thesis
    proof (cases "formatXML_step b i l r")
      case Finish
      with True show ?thesis by (simp add: formatXML_step_shift)
    next
      case (Throw e)
      with True show ?thesis by (simp add: formatXML_step_shift)
    next
      case (Continue i' l' r')
      have "formatXML_loop (a @ b) (length a + i') l' r' = formatXML_loop b i' l' r'"
        using "1.IH" [OF True Continue] .
      moreover have "formatXML_loop (a @ b) (length a + i) l r =
          formatXML_loop (a @ b) (length a + i') l' r'"
        using True Continue
        by (subst formatXML_loop.simps) (simp add: formatXML_step_shift)
      moreover have "formatXML_loop b i l r = formatXML_loop b i' l' r'"
        using True Continue by (subst formatXML_loop.simps) simp
      ultimately show ?thesis by simp
    qed
  qed
qed

lemma name_char_facts:
  "is_name_char c \<Longrightarrow> c \<noteq> CHR ''>'' \<and> c \<noteq> CHR ''<'' \<and> c \<noteq> CHR ''/'' \<and> c \<noteq> CHR ''?'' \<and> c \<noteq> CHR ''!''"
  by (auto simp: is_name_char_def)

lemma valid_name_set: "valid_name n \<Longrightarrow> c \<in> set n \<Longrightarrow> is_name_char c"
  by (simp add: valid_name_def list_all_iff)

lemma valid_name_no_gt: "valid_name n \<Longrightarrow> CHR ''>'' \<notin> set n"
  using name_char_facts valid_name_set by blast

lemma valid_name_Cons: "valid_name n \<Longrightarrow> \<exists>c cs. n = c # cs \<and> is_name_char c"
  by (cases n) (simp_all add: valid_name_def)

lemma valid_name_snoc: "valid_name n \<Longrightarrow> \<exists>cs c. n = cs @ [c] \<and> is_name_char c"
  by (cases n rule: rev_cases) (simp_all add: valid_name_def)

lemma takeWhile_name: "valid_name n \<Longrightarrow> takeWhile is_name_char (n @ CHR ''>'' # rest) = n"
  by (simp add: valid_name_def list_all_iff takeWhile_append2 is_name_char_def)

text \<open>The scan of a tag \<open><n>\<close> at the start of the text.\<close>

lemma open_tag_scan:
  assumes "valid_name n"
  shows "indexOf (open_tag n @ rest) ''<'' 0 = Some 0"
    and "indexOf (open_tag n @ rest) ''>'' 0 = Some (Suc (length n))"
    and "substring (open_tag n @ rest) 0 (Suc (Suc (length n))) = open_tag n"
    and "\<not> prefix ''<?'' (open_tag n)" and "\<not> prefix ''<!--'' (open_tag n)"
    and "\<not> prefix ''</'' (open_tag n)" and "\<not> suffix ''/>'' (open_tag n)"
    and "tag_name_match (open_tag n) = Some n"
proof -
  show "indexOf (open_tag n @ rest) ''<'' 0 = Some 0"
    by (simp add: indexOf_start open_tag_def)
  have "CHR ''>'' \<notin> set (CHR ''<'' # n)"
    using valid_name_no_gt [OF assms] by simp
  then have "first_index ''>'' ((CHR ''<'' # n) @ ''>'' @ rest) = Some (length (CHR ''<'' # n))"
    by (rule first_index_after)
  then show "indexOf (open_tag n @ rest) ''>'' 0 = Some (Suc (length n))"
    by (simp add: indexOf_start open_tag_def)
  show "substring (open_tag n @ rest) 0 (Suc (Suc (length n))) = open_tag n"
    by (simp add: substring_start open_tag_def)
  obtain c cs where n: "n = c # cs" "is_name_char c"
    using valid_name_Cons [OF assms] by blast
  with name_char_facts [of c]
  show "\<not> prefix ''<?'' (open_tag n)" "\<not> prefix ''<!--'' (open_tag n)"
    "\<not> prefix ''</'' (open_tag n)"
    by (auto simp: open_tag_def)
  obtain ds d where m: "n = ds @ [d]" "is_name_char d"
    using valid_name_snoc [OF assms] by blast
  have "open_tag n = (CHR ''<'' # ds) @ [d, CHR ''>'']"
    by (simp add: open_tag_def m)
  moreover have "d \<noteq> CHR ''/''" using name_char_facts [OF m(2)] by simp
  ultimately show "\<not> suffix ''/>'' (open_tag n)"
    by (simp add: suffix_def)
  show "tag_name_match (open_tag n) = Some n"
    using assms by (simp add: tag_name_match_def open_tag_def takeWhile_name valid_name_def)
qed

lemma repeat_str_indent: "0 \<le> l \<Longrightarrow> repeat_str ''  '' l = Inr (indent l)"
  by (simp add: repeat_str_def indent_def)

lemma push_indented_level:
  "0 \<le> c \<Longrightarrow> push_indented c line i l r = Continue i l (r @ [indent c @ line])"
  by (simp add: push_indented_def repeat_str_indent)

lemma step_at_open_tag:
  assumes "valid_name n"
  shows "formatXML_step (open_tag n @ rest) 0 l r =
           opening_tag (open_tag n @ rest) (Suc (length n)) (open_tag n) l r"
  using open_tag_scan [OF assms]
  by (simp add: formatXML_step_def Let_def)

text \<open>A leaf element at the scan position is pushed as one line.\<close>

lemma step_leaf:
  assumes n: "valid_name n" and t: "CHR ''<'' \<notin> set t" "\<not> is_blank t" and l: "0 \<le> l"
  shows "formatXML_step (leaf n t @ rest) 0 l r =
           Continue (length (leaf n t)) l (r @ [indent l @ leaf n t])"
proof -
  let ?s = "leaf n t @ rest"
  have s: "?s = open_tag n @ (t @ close_tag n @ rest)"
    by (simp add: leaf_def)
  have len: "length (open_tag n) = Suc (Suc (length n))"
    by (simp add: open_tag_def)
  have "indexOf ?s (close_tag n) (length (open_tag n) + 0) =
          map_option (\<lambda>k. length (open_tag n) + k) (indexOf (t @ close_tag n @ rest) (close_tag n) 0)"
    unfolding s by (rule indexOf_shift)
  moreover have "first_index (close_tag n) (t @ close_tag n @ rest) = Some (length t)"
    using first_index_after [OF t(1), of "''/'' @ n @ ''>''" rest] by (simp add: close_tag_def)
  ultimately have cs: "indexOf ?s (''</'' @ n @ ''>'') (Suc (Suc (length n))) =
      Some (length (open_tag n) + length t)"
    by (simp add: indexOf_start len close_tag_def)
  have "substring ?s (length (open_tag n) + 0) (length (open_tag n) + length t) =
          substring (t @ close_tag n @ rest) 0 (length t)"
    unfolding s by (rule substring_shift)
  then have inner: "substring ?s (Suc (Suc (length n))) (length (open_tag n) + length t) = t"
    by (simp add: substring_start len)
  have "formatXML_step ?s 0 l r = opening_tag ?s (Suc (length n)) (open_tag n) l r"
    unfolding s by (rule step_at_open_tag [OF n])
  also have "\<dots> = push_indented l (open_tag n @ t @ ''</'' @ n @ ''>'')
      (length (open_tag n) + length t + length (''</'' @ n @ ''>'')) l r"
    using open_tag_scan(8) [OF n] t
    by (simp add: opening_tag_def cs [simplified] inner Let_def str_includes_char js_trim_empty)
  also have "\<dots> = Continue (length (leaf n t)) l (r @ [indent l @ leaf n t])"
    using l by (simp add: push_indented_level leaf_def close_tag_def)
  finally show ?thesis .
qed

text \<open>An opening tag followed by another tag is pushed alone, and the level goes up.\<close>

lemma step_container:
  assumes n: "valid_name n" and l: "0 \<le> l"
  shows "formatXML_step (open_tag n @ CHR ''<'' # rest) 0 l r =
           Continue (length (open_tag n)) (l + 1) (r @ [indent l @ open_tag n])"
proof -
  let ?s = "open_tag n @ CHR ''<'' # rest"
  have len: "length (open_tag n) = Suc (Suc (length n))"
    by (simp add: open_tag_def)
  have regular: "push_indented l (open_tag n) (Suc (length n) + 1) (l + 1) r =
      Continue (length (open_tag n)) (l + 1) (r @ [indent l @ open_tag n])"
    using l by (simp add: push_indented_level len)
  have inner: "str_includes (substring ?s (Suc (Suc (length n))) k) ''<'' \<or>
      js_trim (substring ?s (Suc (Suc (length n))) k) = []"
    if "indexOf ?s c (Suc (Suc (length n))) = Some k" for c k
  proof -
    have "Suc (Suc (length n)) \<le> k"
      using that by (intro indexOf_lower [of ?s c]) (simp_all add: len)
    then have sub: "substring ?s (Suc (Suc (length n))) k = take (k - Suc (Suc (length n))) (CHR ''<'' # rest)"
      by (simp add: substring_le len [symmetric])
    show ?thesis
    proof (cases "k - Suc (Suc (length n))")
      case 0
      with sub show ?thesis by (simp add: js_trim_def)
    next
      case (Suc m)
      with sub show ?thesis by simp
    qed
  qed
  have "formatXML_step ?s 0 l r = opening_tag ?s (Suc (length n)) (open_tag n) l r"
    by (rule step_at_open_tag [OF n])
  also have "\<dots> = push_indented l (open_tag n) (Suc (length n) + 1) (l + 1) r"
    using open_tag_scan(8) [OF n] inner
    by (auto simp: opening_tag_def Let_def split: option.splits)
  finally show ?thesis using regular by simp
qed

text \<open>A closing tag lowers the level and is pushed at the new level.\<close>

lemma step_close_tag:
  assumes n: "valid_name n" and l: "1 \<le> l"
  shows "formatXML_step (close_tag n @ rest) 0 l r =
           Continue (length (close_tag n)) (l - 1) (r @ [indent (l - 1) @ close_tag n])"
proof -
  let ?s = "close_tag n @ rest"
  have "CHR ''>'' \<notin> set (''</'' @ n)"
    using valid_name_no_gt [OF n] by simp
  then have "first_index ''>'' ((''</'' @ n) @ ''>'' @ rest) = Some (length (''</'' @ n))"
    by (rule first_index_after)
  then have te: "indexOf ?s ''>'' 0 = Some (Suc (Suc (length n)))"
    by (simp add: indexOf_start close_tag_def)
  have ts: "indexOf ?s ''<'' 0 = Some 0"
    by (simp add: indexOf_start close_tag_def)
  have full: "substring ?s 0 (Suc (Suc (Suc (length n)))) = close_tag n"
    by (simp add: substring_start close_tag_def)
  have "formatXML_step ?s 0 l r =
      push_indented (l - 1) (close_tag n) (Suc (Suc (Suc (length n)))) (l - 1) r"
    by (simp add: formatXML_step_def ts te full) (simp add: close_tag_def)
  then show ?thesis
    using l by (simp add: push_indented_level) (simp add: close_tag_def)
qed

lemma loop_continue:
  "i < length s \<Longrightarrow> formatXML_step s i l r = Continue i' l' r' \<Longrightarrow>
   formatXML_loop s i l r = formatXML_loop s i' l' r'"
  by (subst formatXML_loop.simps) simp

lemma loop_after_prefix:
  "formatXML_loop (a @ b) (length a) l r = formatXML_loop b 0 l r"
  using formatXML_loop_shift [of a b 0 l r] by simp

text \<open>
  Claim C7: a leaf element, an opening tag followed by text without \<open><\<close> that is not
  blank and by its closing tag, comes out as one line at the current indent, and in
  particular a leaf \<open><A>text</A>\<close> inside \<open><B>\<close> comes out on one line, one level
  below \<open>B\<close>. The function, which is documented to preserve inline text content,
  does not achieve it for the leaf \<open><a.b>text</a.b>\<close>: the regular expression
  \<open>/^<([\w:-]+)/\<close> stops at the dot and gives the name \<open>a\<close>, the closing tag
  \<open></a>\<close> is not found, and the element is pushed as a container: the opening tag
  and the closing tag on two lines, both one level below \<open>B\<close>, and the text on none.
\<close>

theorem dotted_name_leaf_is_split:
  "formatXML ''<B><a.b>text</a.b></B>'' =
     Inr (''<B>'' @ [CHR 0x0A] @ ''  <a.b>'' @ [CHR 0x0A] @ ''  </a.b>'' @ [CHR 0x0A] @ ''</B>'') \<and>
   \<not> leaf_on_one_line ''B'' ''a.b'' ''text''"
  by (simp add: leaf_on_one_line_def leaf_def open_tag_def close_tag_def) code_simp

text \<open>
  For names made of letters, digits, \<open>_\<close>, \<open>:\<close> and \<open>-\<close> only, which the regular
  expression extracts whole, the leaf inside \<open><b>\<close> does come out on one line, one
  level below \<open>b\<close>.
\<close>

lemma nested_leaf:
  assumes a: "valid_name a" and b: "valid_name b"
    and t: "CHR ''<'' \<notin> set t" "\<not> is_blank t"
  shows "formatXML (open_tag b @ leaf a t @ close_tag b) =
           Inr (open_tag b @ [CHR 0x0A] @ ''  '' @ leaf a t @ [CHR 0x0A] @ close_tag b)"
proof -
  let ?inner = "leaf a t @ close_tag b"
  let ?s = "open_tag b @ ?inner"
  obtain rest where inner: "?inner = CHR ''<'' # rest"
    by (simp add: leaf_def open_tag_def)
  have "formatXML_loop ?s 0 0 [] = formatXML_loop ?s (length (open_tag b)) 1 [open_tag b]"
  proof (rule loop_continue)
    show "0 < length ?s" by (simp add: open_tag_def)
    show "formatXML_step ?s 0 0 [] = Continue (length (open_tag b)) 1 [open_tag b]"
      unfolding inner using step_container [OF b, of 0 rest "[]"] by (simp add: indent_def)
  qed
  also have "\<dots> = formatXML_loop ?inner 0 1 [open_tag b]"
    by (rule loop_after_prefix)
  also have "\<dots> = formatXML_loop ?inner (length (leaf a t)) 1
      [open_tag b, ''  '' @ leaf a t]"
  proof (rule loop_continue)
    show "0 < length ?inner" by (simp add: leaf_def open_tag_def)
    show "formatXML_step ?inner 0 1 [open_tag b] =
        Continue (length (leaf a t)) 1 [open_tag b, ''  '' @ leaf a t]"
      using step_leaf [OF a t, of 1 "close_tag b" "[open_tag b]"] by (simp add: indent_def)
  qed
  also have "\<dots> = formatXML_loop (close_tag b) 0 1 [open_tag b, ''  '' @ leaf a t]"
    by (rule loop_after_prefix)
  also have "\<dots> = formatXML_loop (close_tag b) (length (close_tag b)) 0
      [open_tag b, ''  '' @ leaf a t, close_tag b]"
  proof (rule loop_continue)
    show "0 < length (close_tag b)" by (simp add: close_tag_def)
    show "formatXML_step (close_tag b) 0 1 [open_tag b, ''  '' @ leaf a t] =
        Continue (length (close_tag b)) 0 [open_tag b, ''  '' @ leaf a t, close_tag b]"
      using step_close_tag [OF b, of 1 "[]" "[open_tag b, ''  '' @ leaf a t]"]
      by (simp add: indent_def)
  qed
  also have "\<dots> = Inr [open_tag b, ''  '' @ leaf a t, close_tag b]"
    by simp
  finally show ?thesis
    by (simp add: formatXML_def)
qed
section \<open>Properties of transformXacmlNamespace\<close>

lemma str_includes_sublist: "str_includes h n = sublist n h"
  by (induction h) (auto simp: sublist_Cons_right)

lemma sublist_separator:
  "c \<notin> set p \<Longrightarrow> p \<noteq> [] \<Longrightarrow> sublist p (u @ c # v) \<longleftrightarrow> sublist p u \<or> sublist p v"
proof
  assume c: "c \<notin> set p" and p: "p \<noteq> []" and s: "sublist p (u @ c # v)"
  from s consider "sublist p u" | "sublist p (c # v)"
    | p1 p2 where "p = p1 @ p2" "suffix p1 u" "prefix p2 (c # v)" "p2 \<noteq> []"
    by (auto simp: sublist_append) (metis append_Nil2 suffix_imp_sublist)
  then show "sublist p u \<or> sublist p v"
  proof cases
    case 2
    then have "prefix p (c # v) \<or> sublist p v" by (simp add: sublist_Cons_right)
    moreover have "\<not> prefix p (c # v)"
      using c p by (cases p) auto
    ultimately show ?thesis by simp
  next
    case 3
    then have "c \<in> set p2" by (cases p2) auto
    with 3 c show ?thesis by simp
  qed simp
next
  assume "sublist p u \<or> sublist p v"
  then show "sublist p (u @ c # v)"
    by (metis sublist_Cons_right sublist_append)
qed

text \<open>Removing the prefix uses.\<close>

lemma prefix_uses_only_tail:
  "prefix_uses_only prev s \<Longrightarrow> \<exists>prev'. prefix_uses_only prev' (drop n s)"
proof (induction n arbitrary: prev s)
  case 0
  then show ?case by auto
next
  case (Suc n)
  show ?case
  proof (cases s)
    case Nil
    then show ?thesis by auto
  next
    case (Cons c cs)
    with Suc.prems have "prefix_uses_only (Some c) cs" by simp
    from Suc.IH [OF this] Cons show ?thesis by simp
  qed
qed

lemma prefix_of_removed:
  "prefix p (remove_all ''xacml3:'' s) \<Longrightarrow> prefix_uses_only prev s \<Longrightarrow>
   \<not> prefix ''xacml3:'' s \<Longrightarrow> set p \<subseteq> set ''xacml3'' \<Longrightarrow> prefix p s"
proof (induction p arbitrary: s prev)
  case Nil
  show ?case by simp
next
  case (Cons x p)
  from Cons.prems(1) obtain c cs where s: "s = c # cs"
    by (cases s) auto
  with Cons.prems(1,3) have x: "x = c" and rest: "prefix p (remove_all ''xacml3:'' cs)"
    by auto
  from Cons.prems(2) s have uses: "prefix_uses_only (Some c) cs"
    by simp
  have "\<not> prefix ''xacml3:'' cs"
  proof
    assume w: "prefix ''xacml3:'' cs"
    then have "prefix ''xacml3'' cs"
      by (auto simp: prefix_def)
    with uses have "may_precede (Some c)"
      by (cases cs) (auto split: if_splits)
    with x Cons.prems(4) show False
      by (auto simp: may_precede_def)
  qed
  with rest uses Cons.prems(4) have "prefix p cs"
    by (intro Cons.IH [of cs "Some c"]) auto
  with s x show ?case by simp
qed

lemma no_xacml3_after_remove_all:
  "prefix_uses_only prev s \<Longrightarrow> \<not> sublist ''xacml3'' (remove_all ''xacml3:'' s)"
proof (induction "''xacml3:''" s arbitrary: prev rule: remove_all.induct)
  case 1
  show ?case by simp
next
  case (2 c cs)
  show ?case
  proof (cases "prefix ''xacml3:'' (c # cs)")
    case True
    obtain prev' where "prefix_uses_only prev' (drop (length ''xacml3:'') (c # cs))"
      using prefix_uses_only_tail [OF "2.prems"] by blast
    with True "2.hyps"(1) show ?thesis by simp
  next
    case False
    from "2.prems" have "prefix_uses_only (Some c) cs" by simp
    with False "2.hyps"(2) have tail: "\<not> sublist ''xacml3'' (remove_all ''xacml3:'' cs)"
      by simp
    have eq: "remove_all ''xacml3:'' (c # cs) = c # remove_all ''xacml3:'' cs"
      by (simp only: remove_all.simps False simp_thms if_False)
    have "\<not> prefix ''xacml3'' (remove_all ''xacml3:'' (c # cs))"
    proof
      assume "prefix ''xacml3'' (remove_all ''xacml3:'' (c # cs))"
      then have "prefix ''xacml3'' (c # cs)"
        using "2.prems" False by (rule prefix_of_removed) simp
      with "2.prems" have "prefix ''xacml3:'' (c # cs)" by simp
      with False show False by simp
    qed
    then have "\<not> prefix ''xacml3'' (c # remove_all ''xacml3:'' cs)"
      unfolding eq .
    with tail show ?thesis
      unfolding eq sublist_Cons_right by blast
  qed
qed

lemma no_space_in_xacml3: "list_all (\<lambda>c. \<not> is_space c) ''xacml3''"
  by (simp add: is_space_def)

lemma first_index_split:
  "first_index w s = Some k \<Longrightarrow> s = take k s @ w @ drop (k + length w) s"
proof (induction s arbitrary: k)
  case Nil
  then show ?case by (auto split: if_splits)
next
  case (Cons c cs)
  show ?case
  proof (cases "prefix w (c # cs)")
    case True
    with Cons.prems have "k = 0" by simp
    with True show ?thesis by (auto simp: prefix_def)
  next
    case False
    with Cons.prems obtain j where j: "first_index w cs = Some j" "k = Suc j"
      by auto
    from Cons.IH [OF j(1)] j(2) show ?thesis by simp
  qed
qed

lemma first_index_found: "sublist w s \<Longrightarrow> \<exists>k. first_index w s = Some k"
  by (induction s) (auto simp: sublist_Cons_right)

text \<open>Installing the default namespace.\<close>

lemma replace_first_split:
  "replace_first w r s = s \<and> \<not> sublist w s \<or>
   (\<exists>a b. s = a @ w @ b \<and> replace_first w r s = a @ r @ b)"
proof (cases "first_index w s")
  case None
  then have "\<not> sublist w s" using first_index_found by fastforce
  with None show ?thesis by (simp add: replace_first_def)
next
  case (Some k)
  from first_index_split [OF Some] Some show ?thesis
    by (auto simp: replace_first_def)
qed

lemma no_xacml3_in_namespace_tag:
  "sublist ''xacml3'' (a @ policy_set_with_namespace @ b) \<longleftrightarrow>
   sublist ''xacml3'' a \<or> sublist ''xacml3'' b"
proof -
  define m where "m = ''PolicySet xmlns='' @ [CHR 0x22] @
     ''urn:oasis:names:tc:xacml:3.0:core:schema:wd-17'' @ [CHR 0x22]"
  have shape: "a @ policy_set_with_namespace @ b = a @ CHR ''<'' # (m @ CHR '' '' # b)"
    by (simp add: policy_set_with_namespace_def m_def)
  have m: "\<not> sublist ''xacml3'' m"
    by (simp add: str_includes_sublist [symmetric] m_def)
  have "sublist ''xacml3'' (a @ CHR ''<'' # (m @ CHR '' '' # b)) \<longleftrightarrow>
      sublist ''xacml3'' a \<or> sublist ''xacml3'' (m @ CHR '' '' # b)"
    by (rule sublist_separator) simp_all
  also have "sublist ''xacml3'' (m @ CHR '' '' # b) \<longleftrightarrow>
      sublist ''xacml3'' m \<or> sublist ''xacml3'' b"
    by (rule sublist_separator) simp_all
  finally show ?thesis
    unfolding shape using m by simp
qed

lemma no_xacml3_after_replace_first:
  assumes "\<not> sublist ''xacml3'' s"
  shows "\<not> sublist ''xacml3'' (replace_first policy_set_tag policy_set_with_namespace s)"
proof -
  consider "replace_first policy_set_tag policy_set_with_namespace s = s"
    | a b where "s = a @ policy_set_tag @ b"
        "replace_first policy_set_tag policy_set_with_namespace s = a @ policy_set_with_namespace @ b"
    using replace_first_split [of policy_set_tag policy_set_with_namespace s] by blast
  then show ?thesis
  proof cases
    case 1
    with assms show ?thesis by simp
  next
    case 2
    from assms 2(1) have "\<not> sublist ''xacml3'' a" "\<not> sublist ''xacml3'' b"
      by (auto simp: sublist_append)
    with 2(2) show ?thesis
      by (simp add: no_xacml3_in_namespace_tag)
  qed
qed

text \<open>Collapsing white space.\<close>

lemma prefix_of_collapsed:
  "prefix p (collapse_spaces s) \<Longrightarrow> list_all (\<lambda>c. \<not> is_space c) p \<Longrightarrow> prefix p s"
proof (induction p arbitrary: s)
  case Nil
  show ?case by simp
next
  case (Cons x p)
  from Cons.prems(1) obtain c cs where s: "s = c # cs"
    by (cases s) auto
  from Cons.prems(2) have x: "\<not> is_space x" by simp
  have sp: "is_space (CHR '' '')" by (simp add: is_space_def)
  from Cons.prems(1) s x sp have "\<not> is_space c"
    by (auto split: if_splits)
  with Cons.prems(1) s have "x = c" "prefix p (collapse_spaces cs)"
    by auto
  with Cons.IH [of cs] Cons.prems(2) s show ?case by simp
qed

lemma sublist_of_collapsed:
  "sublist p (collapse_spaces s) \<Longrightarrow> p \<noteq> [] \<Longrightarrow> list_all (\<lambda>c. \<not> is_space c) p \<Longrightarrow>
   sublist p s"
proof (induction s rule: collapse_spaces.induct)
  case 1
  then show ?case by simp
next
  case (2 c cs)
  have sp: "is_space (CHR '' '')" by (simp add: is_space_def)
  show ?case
  proof (cases "is_space c")
    case True
    from "2.prems"(3) sp have "CHR '' '' \<notin> set p"
      by (auto simp: list_all_iff)
    with "2.prems"(1,2) True
    have "sublist p (collapse_spaces (dropWhile is_space cs))"
      using sublist_separator [of "CHR '' ''" p "[]"] by simp
    with "2.IH"(1) [OF True] "2.prems"(2,3) have "sublist p (dropWhile is_space cs)"
      by simp
    then have "sublist p cs"
      by (metis sublist_order.order.trans suffix_dropWhile suffix_imp_sublist)
    then show ?thesis by (simp add: sublist_Cons_right)
  next
    case False
    with "2.prems"(1) have "prefix p (collapse_spaces (c # cs)) \<or> sublist p (collapse_spaces cs)"
      by (simp add: sublist_Cons_right)
    then show ?thesis
    proof
      assume "prefix p (collapse_spaces (c # cs))"
      then have "prefix p (c # cs)" using "2.prems"(3) by (rule prefix_of_collapsed)
      then show ?thesis by simp
    next
      assume "sublist p (collapse_spaces cs)"
      with "2.IH"(2) [OF False] "2.prems"(2,3) have "sublist p cs" by simp
      then show ?thesis by (simp add: sublist_Cons_right)
    qed
  qed
qed

lemma dropWhile_before_other: "\<not> P c \<Longrightarrow> dropWhile P (a @ c # r) = dropWhile P a @ c # r"
  by (induction a) auto

lemma collapse_spaces_append:
  "\<not> is_space c \<Longrightarrow> collapse_spaces (a @ c # r) = collapse_spaces a @ c # collapse_spaces r"
proof (induction a rule: collapse_spaces.induct)
  case 1
  then show ?case by simp
next
  case (2 x xs)
  show ?case
  proof (cases "is_space x")
    case True
    with "2.IH"(1) "2.prems" show ?thesis
      by (simp add: dropWhile_before_other)
  next
    case False
    with "2.IH"(2) "2.prems" show ?thesis by simp
  qed
qed

lemma collapse_namespace_tag:
  "collapse_spaces (policy_set_with_namespace @ b) =
     policy_set_with_namespace @ collapse_spaces (dropWhile is_space b)"
  by (simp add: policy_set_with_namespace_def is_space_def)

lemma namespace_tag_survives:
  "sublist policy_set_with_namespace (collapse_spaces (a @ policy_set_with_namespace @ b))"
proof -
  obtain r where r: "policy_set_with_namespace = CHR ''<'' # r"
    by (simp add: policy_set_with_namespace_def)
  have "collapse_spaces (a @ policy_set_with_namespace @ b) =
      collapse_spaces a @ collapse_spaces (policy_set_with_namespace @ b)"
    using collapse_spaces_append [of "CHR ''<''" a "r @ b"]
    by (simp add: r is_space_def)
  then show ?thesis
    by (simp add: collapse_namespace_tag)
qed

lemma sublist_longer:
  "\<not> sublist p s \<Longrightarrow> \<not> sublist (a @ p @ b) s"
  by (metis sublist_appendI sublist_order.order.trans)

lemma transform_split:
  "transformXacmlNamespace x =
     collapse_spaces (replace_first policy_set_tag policy_set_with_namespace
       (remove_all ''xacml3:'' (remove_declarations x)))"
  by (simp add: transformXacmlNamespace_def)

text \<open>
  The second to fourth replacement: when the text left by the first one has \<open>xacml3\<close>
  only before a colon and only at the start or after a character other than \<open>x\<close>,
  \<open>a\<close>, \<open>c\<close>, \<open>m\<close>, \<open>l\<close> and \<open>3\<close>, the output has no \<open>xacml3\<close> at all.
\<close>

lemma no_xacml3_in_output:
  assumes "prefix_uses_only None (remove_declarations x)"
  shows "\<not> sublist ''xacml3'' (transformXacmlNamespace x)"
proof
  assume "sublist ''xacml3'' (transformXacmlNamespace x)"
  then have "sublist ''xacml3'' (replace_first policy_set_tag policy_set_with_namespace
       (remove_all ''xacml3:'' (remove_declarations x)))"
    unfolding transform_split
    by (rule sublist_of_collapsed) (simp_all add: is_space_def)
  moreover have "\<not> sublist ''xacml3'' (remove_all ''xacml3:'' (remove_declarations x))"
    using assms by (rule no_xacml3_after_remove_all)
  ultimately show False
    using no_xacml3_after_replace_first by blast
qed

text \<open>
  The third replacement writes the default namespace into the first \<open><PolicySet\<close>
  that is followed by a space, wherever it stands, and the fourth keeps it.
\<close>

lemma namespace_installed:
  assumes "str_includes (remove_all ''xacml3:'' (remove_declarations x)) policy_set_tag"
  shows "str_includes (transformXacmlNamespace x) policy_set_with_namespace"
proof -
  let ?y = "remove_all ''xacml3:'' (remove_declarations x)"
  from assms have "sublist policy_set_tag ?y"
    by (simp add: str_includes_sublist)
  with replace_first_split [of policy_set_tag policy_set_with_namespace ?y]
  obtain a b where "replace_first policy_set_tag policy_set_with_namespace ?y =
      a @ policy_set_with_namespace @ b"
    by blast
  then show ?thesis
    by (simp add: transform_split str_includes_sublist namespace_tag_survives)
qed

text \<open>
  Claim C8: the output has no \<open>xmlns:xacml3\<close> declaration and no \<open>xacml3:\<close> prefix,
  and its root \<open>PolicySet\<close> element has the default namespace
  \<open>xmlns="urn:oasis:names:tc:xacml:3.0:core:schema:wd-17"\<close>. The function does not
  achieve it on these two policy sets. The namespace is written by
  \<open>replace(/<PolicySet /, ...)\<close>, before the white space is collapsed: a root tag
  that is followed by a line break is not found, and the output has no \<open>xmlns\<close> at
  all, so the policy set has lost its namespace. The declaration is deleted by
  \<open>replace(/xmlns:xacml3="[^"]*"/g, '')\<close>: written in single quotes it stays in the
  output.
\<close>

theorem root_before_line_break_gets_no_namespace:
  "transformXacmlNamespace wrapped_policy_set =
     ''<PolicySet PolicySetId='' @ [CHR 0x22] @ ''root'' @ [CHR 0x22] @ ''> </PolicySet>'' \<and>
   \<not> str_includes (transformXacmlNamespace wrapped_policy_set) ''xmlns'' \<and>
   transformXacmlNamespace single_quoted_policy_set =
     policy_set_with_namespace @ ''xmlns:xacml3='' @ [CHR 0x27] @
     ''urn:oasis:names:tc:xacml:3.0:core:schema:wd-17'' @ [CHR 0x27] @
     '' PolicySetId='' @ [CHR 0x22] @ ''root'' @ [CHR 0x22] @ ''></PolicySet>'' \<and>
   str_includes (transformXacmlNamespace single_quoted_policy_set) ''xmlns:xacml3=''"
  by code_simp

text \<open>
  On a policy set whose root tag is followed by a space and whose declaration is in
  double quotes the function does what is asked.
\<close>

lemma generated_policy_set_transformed:
  "transformXacmlNamespace generated_policy_set =
     policy_set_with_namespace @ ''PolicySetId='' @ [CHR 0x22] @ ''p'' @ [CHR 0x22] @
     ''> <Description>d</Description> </PolicySet>''"
  by code_simp

text \<open>
  Each replacement is one pass from left to right over the text, and what a deletion
  leaves is not scanned again: in \<open><xacxacml3:ml3:Rule/>\<close> the deletion of
  \<open>xacml3:\<close> leaves the element name \<open>xacml3:Rule\<close>.
\<close>

lemma single_pass_rebuilds_prefix:
  "transformXacmlNamespace rebuilding_text =
     policy_set_with_namespace @ ''><xacml3:Rule/></PolicySet>''"
  by code_simp

text \<open>
  Deleting the declarations leaves a text without \<open>xmlns:xacml3="\<close> unchanged, and
  takes out a declaration that is the first place where such text starts.
\<close>

lemma remove_declarations_none:
  "\<not> sublist declaration_head s \<Longrightarrow> remove_declarations s = s"
proof (induction s)
  case Nil
  show ?case by simp
next
  case (Cons c cs)
  then have "\<not> prefix declaration_head (c # cs)" "\<not> sublist declaration_head cs"
    by (auto simp: sublist_Cons_right declaration_head_def)
  with Cons.IH show ?case
    by (simp add: declaration_length_def)
qed

lemma remove_first_declaration:
  assumes "first_index declaration_head (a @ declaration_head @ v @ CHR 0x22 # b) = Some (length a)"
    and "CHR 0x22 \<notin> set v"
  shows "remove_declarations (a @ declaration_head @ v @ CHR 0x22 # b) = a @ remove_declarations b"
  using assms(1)
proof (induction a)
  case Nil
  have "declaration_length (declaration_head @ v @ CHR 0x22 # b) =
      Some (length declaration_head + length v + 1)"
  proof -
    have "takeWhile (\<lambda>c. c \<noteq> CHR 0x22) (v @ CHR 0x22 # b) = v"
      using assms(2) by (auto simp: takeWhile_tail takeWhile_eq_all_conv)
    then show ?thesis
      by (simp add: declaration_length_def)
  qed
  then show ?case
    by (simp add: declaration_head_def)
next
  case (Cons c a)
  let ?s = "a @ declaration_head @ v @ CHR 0x22 # b"
  from Cons.prems have np: "\<not> prefix declaration_head (c # ?s)"
    and "first_index declaration_head ?s = Some (length a)"
    by (auto split: if_splits simp: declaration_head_def)
  with Cons.IH show ?case
    by (simp add: declaration_length_def)
qed

section \<open>Properties of waitForCondition\<close>

declare waitLoop.simps [simp del]

lemma timer_delay_positive: "1 \<le> timer_delay d"
  by (simp add: timer_delay_def)

lemma timer_delay_covers: "d \<le> 2147483647 \<Longrightarrow> d \<le> timer_delay d"
  by (simp add: timer_delay_def)

lemma waitLoop_timed_out:
  "\<not> now - startTime < timeout \<Longrightarrow> waitLoop w timeout interval startTime now k = (Returned False, [])"
  by (subst waitLoop.simps) simp

lemma waitLoop_true:
  "now - startTime < timeout \<Longrightarrow> outcome w k = Returns True \<Longrightarrow>
   waitLoop w timeout interval startTime now k = (Returned True, [Poll now])"
  by (subst waitLoop.simps) simp

lemma waitLoop_rejects:
  "now - startTime < timeout \<Longrightarrow> outcome w k = Rejects \<Longrightarrow>
   waitLoop w timeout interval startTime now k = (Thrown, [Poll now])"
  by (subst waitLoop.simps) simp

lemma waitLoop_pending:
  "now - startTime < timeout \<Longrightarrow> outcome w k = Pending \<Longrightarrow>
   waitLoop w timeout interval startTime now k = (Suspended, [Poll now])"
  by (subst waitLoop.simps) simp

lemma waitLoop_false:
  "now - startTime < timeout \<Longrightarrow> outcome w k = Returns False \<Longrightarrow>
   waitLoop w timeout interval startTime now k =
     (fst (waitLoop w timeout interval startTime
             (timer_fires w interval (settled_at w now k) k) (Suc k)),
      Poll now # Sleep interval (settled_at w now k) #
        snd (waitLoop w timeout interval startTime
               (timer_fires w interval (settled_at w now k) k) (Suc k)))"
  by (subst waitLoop.simps) (simp add: case_prod_beta)

lemma next_poll_start:
  "timer_fires w interval (settled_at w (poll_start w interval startTime k) k) k =
     poll_start w interval startTime (Suc k)"
  by (simp add: timer_fires_def settled_at_def)

lemma poll_start_mono: "poll_start w interval startTime k \<le> poll_start w interval startTime (Suc k)"
  using timer_delay_positive [of interval] by simp

lemma poll_start_later:
  "poll_start w interval startTime k \<le> poll_start w interval startTime (k + n)"
proof (induction n)
  case 0
  show ?case by simp
next
  case (Suc n)
  have "poll_start w interval startTime (k + n) \<le> poll_start w interval startTime (Suc (k + n))"
    by (rule poll_start_mono)
  with Suc show ?case by simp
qed

text \<open>
  As long as the invocations return false and start before the timeout has elapsed, the
  loop makes one unsuccessful pass after the other.
\<close>

lemma waitLoop_unsuccessful_passes:
  "(\<forall>j. k \<le> j \<and> j < k + n \<longrightarrow> outcome w j = Returns False) \<Longrightarrow>
   poll_start w interval startTime (k + n) - startTime < timeout \<Longrightarrow>
   waitLoop w timeout interval startTime (poll_start w interval startTime k) k =
     (fst (waitLoop w timeout interval startTime (poll_start w interval startTime (k + n)) (k + n)),
      passes w interval startTime k n @
        snd (waitLoop w timeout interval startTime (poll_start w interval startTime (k + n)) (k + n)))"
proof (induction n arbitrary: k)
  case 0
  show ?case by simp
next
  case (Suc n)
  let ?t = "poll_start w interval startTime k"
  have "?t \<le> poll_start w interval startTime (k + Suc n)"
    by (rule poll_start_later)
  with Suc.prems(2) have now: "?t - startTime < timeout" by simp
  have out: "outcome w k = Returns False" using Suc.prems(1) by simp
  have false: "\<forall>j. Suc k \<le> j \<and> j < Suc k + n \<longrightarrow> outcome w j = Returns False"
    using Suc.prems(1) by simp
  have start: "poll_start w interval startTime (Suc k + n) - startTime < timeout"
    using Suc.prems(2) by simp
  have "waitLoop w timeout interval startTime ?t k =
      (fst (waitLoop w timeout interval startTime (poll_start w interval startTime (Suc k)) (Suc k)),
       Poll ?t # Sleep interval (settled_at w ?t k) #
         snd (waitLoop w timeout interval startTime (poll_start w interval startTime (Suc k)) (Suc k)))"
    using waitLoop_false [OF now out, of interval] by (simp only: next_poll_start)
  also have "waitLoop w timeout interval startTime (poll_start w interval startTime (Suc k)) (Suc k) =
      (fst (waitLoop w timeout interval startTime
              (poll_start w interval startTime (Suc k + n)) (Suc k + n)),
       passes w interval startTime (Suc k) n @
         snd (waitLoop w timeout interval startTime
                (poll_start w interval startTime (Suc k + n)) (Suc k + n)))"
    using false start by (rule Suc.IH)
  finally show ?case
    by (simp add: settled_at_def)
qed

lemma first_settled:
  assumes "\<forall>j<k. outcome w j = Returns False"
    and "poll_start w interval startTime k - startTime < timeout"
  shows "waitForCondition w timeout interval startTime =
     (fst (waitLoop w timeout interval startTime (poll_start w interval startTime k) k),
      passes w interval startTime 0 k @
        snd (waitLoop w timeout interval startTime (poll_start w interval startTime k) k))"
  using waitLoop_unsuccessful_passes [of 0 k w interval startTime timeout] assms
  by (simp add: waitForCondition_def)

lemma returns_true_at_first_success:
  assumes "outcome w k = Returns True" and "\<forall>j<k. outcome w j = Returns False"
    and "poll_start w interval startTime k - startTime < timeout"
  shows "waitForCondition w timeout interval startTime =
     (Returned True, passes w interval startTime 0 k @ [Poll (poll_start w interval startTime k)])"
  using first_settled [OF assms(2,3)] waitLoop_true [OF assms(3,1)] by simp

lemma throws_at_first_exception:
  assumes "outcome w k = Rejects" and "\<forall>j<k. outcome w j = Returns False"
    and "poll_start w interval startTime k - startTime < timeout"
  shows "waitForCondition w timeout interval startTime =
     (Thrown, passes w interval startTime 0 k @ [Poll (poll_start w interval startTime k)])"
  using first_settled [OF assms(2,3)] waitLoop_rejects [OF assms(3,1)] by simp

lemma suspended_at_first_pending:
  assumes "outcome w k = Pending" and "\<forall>j<k. outcome w j = Returns False"
    and "poll_start w interval startTime k - startTime < timeout"
  shows "waitForCondition w timeout interval startTime =
     (Suspended, passes w interval startTime 0 k @ [Poll (poll_start w interval startTime k)])"
  using first_settled [OF assms(2,3)] waitLoop_pending [OF assms(3,1)] by simp

lemma waitLoop_all_false:
  "(\<forall>k. poll_start w interval startTime k - startTime < timeout \<longrightarrow>
      outcome w k = Returns False) \<Longrightarrow>
   now = poll_start w interval startTime k \<Longrightarrow>
   \<exists>n. waitLoop w timeout interval startTime now k =
     (Returned False, passes w interval startTime k n)"
proof (induction w timeout interval startTime now k rule: waitLoop.induct)
  case (1 w timeout interval startTime now k)
  show ?case
  proof (cases "now - startTime < timeout")
    case False
    then have "waitLoop w timeout interval startTime now k =
        (Returned False, passes w interval startTime k 0)"
      by (simp add: waitLoop_timed_out)
    then show ?thesis by blast
  next
    case True
    with "1.prems" have out: "outcome w k = Returns False" by simp
    have next_start: "timer_fires w interval (settled_at w now k) k =
        poll_start w interval startTime (Suc k)"
      unfolding "1.prems"(2) by (rule next_poll_start)
    with "1.IH" [OF True out _ "1.prems"(1)] obtain n where
      "waitLoop w timeout interval startTime (timer_fires w interval (settled_at w now k) k) (Suc k) =
         (Returned False, passes w interval startTime (Suc k) n)"
      by auto
    with waitLoop_false [OF True out, of interval]
    have "waitLoop w timeout interval startTime now k =
        (Returned False, Poll now # Sleep interval (settled_at w now k) #
           passes w interval startTime (Suc k) n)"
      by simp
    then have "waitLoop w timeout interval startTime now k =
        (Returned False, passes w interval startTime k (Suc n))"
      using "1.prems"(2) by (simp add: settled_at_def)
    then show ?thesis by blast
  qed
qed

lemma returns_false_on_timeout:
  assumes "\<forall>k. poll_start w interval startTime k - startTime < timeout \<longrightarrow>
      outcome w k = Returns False"
  shows "\<exists>n. waitForCondition w timeout interval startTime =
     (Returned False, passes w interval startTime 0 n)"
  unfolding waitForCondition_def
  using assms by (rule waitLoop_all_false) simp

text \<open>The events of the loop begin with an invocation at the current time, if there are any.\<close>

lemma waitLoop_first_event:
  "snd (waitLoop w timeout interval startTime now k) = [] \<or>
   (\<exists>rest. snd (waitLoop w timeout interval startTime now k) = Poll now # rest)"
  by (subst (1 2) waitLoop.simps)
     (simp add: case_prod_beta split: poll_outcome.splits)

lemma waitLoop_well_paced:
  "well_paced interval (timer_delay interval) (snd (waitLoop w timeout interval startTime now k))"
proof (induction w timeout interval startTime now k rule: waitLoop.induct)
  case (1 w timeout interval startTime now k)
  show ?case
  proof (cases "now - startTime < timeout")
    case False
    then show ?thesis by (simp add: waitLoop_timed_out)
  next
    case True
    show ?thesis
    proof (cases "outcome w k")
      case Rejects
      with True show ?thesis by (simp add: waitLoop_rejects)
    next
      case Pending
      with True show ?thesis by (simp add: waitLoop_pending)
    next
      case (Returns b)
      show ?thesis
      proof (cases b)
        case True
        with Returns \<open>now - startTime < timeout\<close> show ?thesis
          by (simp add: waitLoop_true)
      next
        case False
        let ?s = "settled_at w now k"
        let ?next = "timer_fires w interval ?s k"
        let ?rest = "snd (waitLoop w timeout interval startTime ?next (Suc k))"
        from False Returns have out: "outcome w k = Returns False" by simp
        have paced: "well_paced interval (timer_delay interval) ?rest"
          using "1.IH" [OF True Returns] False by simp
        have events: "snd (waitLoop w timeout interval startTime now k) =
            Poll now # Sleep interval ?s # ?rest"
          by (simp add: waitLoop_false [OF True out])
        have times: "now \<le> ?s" "?s + timer_delay interval \<le> ?next"
          by (simp_all add: settled_at_def timer_fires_def)
        from waitLoop_first_event [of w timeout interval startTime ?next "Suc k"]
        show ?thesis
        proof
          assume "?rest = []"
          with events times show ?thesis by simp
        next
          assume "\<exists>rest. ?rest = Poll ?next # rest"
          then obtain rest where rest: "?rest = Poll ?next # rest" by blast
          with paced have "well_paced interval (timer_delay interval) (Poll ?next # rest)"
            by simp
          with events rest times show ?thesis by simp
        qed
      qed
    qed
  qed
qed

lemma well_paced_shorter:
  "well_paced interval least events \<Longrightarrow> least' \<le> least \<Longrightarrow> well_paced interval least' events"
  by (induction interval least events rule: well_paced.induct) auto

text \<open>
  Claim C9 is stated for every predicate and every interval. A condition that throws
  never returns true, and \<open>waitForCondition\<close> throws with it instead of returning
  false. And a timer set to more than \<open>2\<^sup>3\<^sup>1 - 1\<close> milliseconds lasts one
  millisecond: with an interval of \<open>2\<^sup>3\<^sup>1\<close> the second invocation comes one
  millisecond after the first, not after a sleep of the interval.
\<close>

theorem throwing_condition_is_thrown:
  "(\<forall>k. outcome failing k \<noteq> Returns True) \<and>
   waitForCondition failing 300 100 0 = (Thrown, [Poll 0]) \<and>
   waitForCondition second_time 50 2147483648 0 =
     (Returned True, [Poll 0, Sleep 2147483648 0, Poll 1]) \<and>
   \<not> well_paced 2147483648 2147483648 (snd (waitForCondition second_time 50 2147483648 0))"
  by (simp add: waitForCondition_def waitLoop.simps failing_def second_time_def
      timer_fires_def settled_at_def timer_delay_def)

text \<open>
  Claim C9, amended. Let the \<open>k\<close>-th invocation of the condition start before the
  timeout has elapsed, all earlier ones having returned false. (1) If it returns true,
  \<open>waitForCondition\<close> returns true right after it; if it throws, \<open>waitForCondition\<close>
  throws; if its promise is never settled, \<open>waitForCondition\<close> never returns.
  (2) When every invocation that starts before the timeout has elapsed returns false,
  \<open>waitForCondition\<close> returns false: it does return, and it does not throw.
  (3) Whatever the condition does, between two consecutive invocations there is
  exactly one timer, set to \<open>interval\<close>, and the later invocation starts no earlier
  than \<open>timer_delay interval\<close> milliseconds after the timer was set: no earlier than
  \<open>interval\<close> milliseconds after, when \<open>interval\<close> is at most \<open>2\<^sup>3\<^sup>1 - 1\<close>.
\<close>

theorem waitForCondition_follows_condition:
  "((\<forall>j<k. outcome w j = Returns False) \<and>
    poll_start w interval startTime k - startTime < timeout \<longrightarrow>
      (outcome w k = Returns True \<longrightarrow>
         waitForCondition w timeout interval startTime =
           (Returned True,
            passes w interval startTime 0 k @ [Poll (poll_start w interval startTime k)])) \<and>
      (outcome w k = Rejects \<longrightarrow>
         waitForCondition w timeout interval startTime =
           (Thrown,
            passes w interval startTime 0 k @ [Poll (poll_start w interval startTime k)])) \<and>
      (outcome w k = Pending \<longrightarrow>
         waitForCondition w timeout interval startTime =
           (Suspended,
            passes w interval startTime 0 k @ [Poll (poll_start w interval startTime k)]))) \<and>
   ((\<forall>k. poll_start w interval startTime k - startTime < timeout \<longrightarrow>
        outcome w k = Returns False) \<longrightarrow>
      (\<exists>n. waitForCondition w timeout interval startTime =
         (Returned False, passes w interval startTime 0 n))) \<and>
   well_paced interval (timer_delay interval)
     (snd (waitForCondition w timeout interval startTime)) \<and>
   (interval \<le> 2147483647 \<longrightarrow>
      well_paced interval interval (snd (waitForCondition w timeout interval startTime)))"
proof (intro conjI impI)
  assume h: "(\<forall>j<k. outcome w j = Returns False) \<and>
    poll_start w interval startTime k - startTime < timeout"
  {
    assume "outcome w k = Returns True"
    with h show "waitForCondition w timeout interval startTime =
        (Returned True,
         passes w interval startTime 0 k @ [Poll (poll_start w interval startTime k)])"
      by (intro returns_true_at_first_success) simp_all
  next
    assume "outcome w k = Rejects"
    with h show "waitForCondition w timeout interval startTime =
        (Thrown, passes w interval startTime 0 k @ [Poll (poll_start w interval startTime k)])"
      by (intro throws_at_first_exception) simp_all
  next
    assume "outcome w k = Pending"
    with h show "waitForCondition w timeout interval startTime =
        (Suspended, passes w interval startTime 0 k @ [Poll (poll_start w interval startTime k)])"
      by (intro suspended_at_first_pending) simp_all
  }
next
  assume "\<forall>k. poll_start w interval startTime k - startTime < timeout \<longrightarrow>
        outcome w k = Returns False"
  then show "\<exists>n. waitForCondition w timeout interval startTime =
      (Returned False, passes w interval startTime 0 n)"
    by (rule returns_false_on_timeout)
next
  show paced: "well_paced interval (timer_delay interval)
      (snd (waitForCondition w timeout interval startTime))"
    unfolding waitForCondition_def by (rule waitLoop_well_paced)
  assume "interval \<le> 2147483647"
  then have "interval \<le> timer_delay interval"
    by (rule timer_delay_covers)
  with paced show "well_paced interval interval
      (snd (waitForCondition w timeout interval startTime))"
    by (rule well_paced_shorter)
qed

theorem waitForCondition_follows_condition_witness:
  "waitForCondition third_time 1000 100 0 =
     (Returned True, [Poll 0, Sleep 100 5, Poll 105, Sleep 100 110, Poll 210]) \<and>
   waitForCondition failing 300 100 0 = (Thrown, [Poll 0]) \<and>
   waitForCondition stuck 300 100 0 = (Suspended, [Poll 0]) \<and>
   (\<exists>n. waitForCondition never 300 100 0 = (Returned False, passes never 100 0 0 n)) \<and>
   well_paced 100 100 (snd (waitForCondition never 300 100 0))"
proof -
  have a: "\<forall>j<2. outcome third_time j = Returns False"
    "poll_start third_time 100 0 2 - 0 < 1000" "outcome third_time 2 = Returns True"
    by (simp_all add: third_time_def numeral_2_eq_2 timer_delay_def)
  have b: "\<forall>j<0. outcome failing j = Returns False" "poll_start failing 100 0 0 - 0 < 300"
    "outcome failing 0 = Rejects"
    by (simp_all add: failing_def)
  have c: "\<forall>j<0. outcome stuck j = Returns False" "poll_start stuck 100 0 0 - 0 < 300"
    "outcome stuck 0 = Pending"
    by (simp_all add: stuck_def)
  have d: "\<forall>k. poll_start never 100 0 k - 0 < 300 \<longrightarrow> outcome never k = Returns False"
    by (simp add: never_def)
  from waitForCondition_follows_condition [of 2 third_time 100 0 1000, THEN conjunct1] a
  have "waitForCondition third_time 1000 100 0 =
      (Returned True, passes third_time 100 0 0 2 @ [Poll (poll_start third_time 100 0 2)])"
    by blast
  then have first: "waitForCondition third_time 1000 100 0 =
      (Returned True, [Poll 0, Sleep 100 5, Poll 105, Sleep 100 110, Poll 210])"
    by (simp add: third_time_def numeral_2_eq_2 timer_delay_def)
  from waitForCondition_follows_condition [of 0 failing 100 0 300, THEN conjunct1] b
  have "waitForCondition failing 300 100 0 =
      (Thrown, passes failing 100 0 0 0 @ [Poll (poll_start failing 100 0 0)])"
    by blast
  then have second: "waitForCondition failing 300 100 0 = (Thrown, [Poll 0])"
    by (simp add: failing_def)
  from waitForCondition_follows_condition [of 0 stuck 100 0 300, THEN conjunct1] c
  have "waitForCondition stuck 300 100 0 =
      (Suspended, passes stuck 100 0 0 0 @ [Poll (poll_start stuck 100 0 0)])"
    by blast
  then have third: "waitForCondition stuck 300 100 0 = (Suspended, [Poll 0])"
    by (simp add: stuck_def)
  from waitForCondition_follows_condition [of _ never 100 0 300, THEN conjunct2] d
  have "(\<exists>n. waitForCondition never 300 100 0 = (Returned False, passes never 100 0 0 n)) \<and>
    well_paced 100 100 (snd (waitForCondition never 300 100 0))"
    by simp
  with first second third show ?thesis
    by blast
qed

text \<open>
  The example of the specification: with a condition that holds at its third
  invocation and an interval of 100, two timers of 100 milliseconds come before the
  last invocation; with one that never holds and a timeout of 300, the invocations
  are at 0, 100 and 200 and the loop ends at 300.
\<close>

lemma never_holds_example:
  "waitForCondition never 300 100 0 =
     (Returned False, [Poll 0, Sleep 100 0, Poll 100, Sleep 100 100, Poll 200, Sleep 100 200])"
  by (simp add: waitForCondition_def waitLoop.simps never_def
      timer_fires_def settled_at_def timer_delay_def)

end
